theory Spec2Isabelle
  imports Complex_Main "HOL-Library.Sublist"
begin

section \<open>Python strings\<close>

text \<open>
  A Python \<open>str\<close> is a sequence of Unicode code points. It is modelled as a list of
  natural numbers, one per code point, so that non-ASCII text is an ordinary input.
  \<open>S\<close> turns an ASCII literal of the source into that representation.
\<close>

type_synonym pystr = "nat list"

definition S :: "string \<Rightarrow> pystr" where
  "S s = map of_char s"

text \<open>\<open>sep.join(xs)\<close> of Python.\<close>

fun join :: "pystr \<Rightarrow> pystr list \<Rightarrow> pystr" where
  "join sep [] = []"
| "join sep [x] = x"
| "join sep (x # y # ys) = x @ sep @ join sep (y # ys)"

section \<open>Caption overlay compiler: \<open>create_subtitle_filter\<close>\<close>

text \<open>
  The character class \<open>[a-zA-Z0-9,.?! ]\<close> of the regular expression in \<open>clean_text\<close>:
  three code point ranges and five single characters.
\<close>

definition in_class :: "nat \<Rightarrow> bool" where
  "in_class c \<longleftrightarrow>
     (of_char CHR ''a'' \<le> c \<and> c \<le> of_char CHR ''z'') \<or>
     (of_char CHR ''A'' \<le> c \<and> c \<le> of_char CHR ''Z'') \<or>
     (of_char CHR ''0'' \<le> c \<and> c \<le> of_char CHR ''9'') \<or>
     c = of_char CHR '','' \<or> c = of_char CHR ''.'' \<or> c = of_char CHR ''?'' \<or>
     c = of_char CHR ''!'' \<or> c = of_char CHR '' ''"

text \<open>
  \<open>re.sub(r"[^a-zA-Z0-9,.?! ]", "", text)\<close>: every character matching the negated class is
  replaced by the empty string, the others are kept in place.
\<close>

definition clean_text :: "pystr \<Rightarrow> pystr" where
  "clean_text text = filter in_class text"

text \<open>
  One word of a transcript segment, as the transcriber returns it
  (\<open>word_info["word"]\<close>, \<open>word_info["start"]\<close>, \<open>word_info["end"]\<close>).
  The times are Python floats; only their printed form is used, and the printing
  function (\<open>str\<close> of a float) is a parameter of the compiler.
\<close>

record word_info =
  word :: pystr
  start :: rat
  end_time :: rat

text \<open>A segment is a dictionary; its key \<open>"words"\<close> may be absent.\<close>

record segment =
  words :: "word_info list option"

text \<open>The f-string that builds one \<open>drawtext\<close> directive.\<close>

definition filter_text :: "(rat \<Rightarrow> pystr) \<Rightarrow> word_info \<Rightarrow> pystr" where
  "filter_text str_float word_info =
     (let word = clean_text (word word_info);
          start = start word_info;
          end = end_time word_info
      in S ''drawtext=font='' @ [39] @ S ''Arial'' @ [39] @ S '':text='' @ [39] @ word @ [39] @ S '':'' @
         S ''fontsize=60:fontcolor=white:bordercolor=black:borderw=2:'' @
         S ''x=(w-text_w)/2:y=(h-text_h)/2:'' @
         S ''enable='' @ [39] @ S ''between(t,'' @ str_float start @ S '','' @ str_float end @ S '')'' @ [39])"

text \<open>The inner loop over \<open>segment.get("words", [])\<close>, appending to \<open>filters\<close>.\<close>

fun words_loop :: "(rat \<Rightarrow> pystr) \<Rightarrow> word_info list \<Rightarrow> pystr list \<Rightarrow> pystr list" where
  "words_loop str_float [] filters = filters"
| "words_loop str_float (word_info # rest) filters =
     words_loop str_float rest (filters @ [filter_text str_float word_info])"

definition segment_words :: "segment \<Rightarrow> word_info list" where
  "segment_words segment = (case words segment of None \<Rightarrow> [] | Some ws \<Rightarrow> ws)"

text \<open>The outer loop over \<open>segments\<close>.\<close>

fun segments_loop :: "(rat \<Rightarrow> pystr) \<Rightarrow> segment list \<Rightarrow> pystr list \<Rightarrow> pystr list" where
  "segments_loop str_float [] filters = filters"
| "segments_loop str_float (segment # rest) filters =
     segments_loop str_float rest (words_loop str_float (segment_words segment) filters)"

text \<open>The list \<open>filters\<close> when the loops are done, and the string the function returns.\<close>

definition subtitle_filters :: "(rat \<Rightarrow> pystr) \<Rightarrow> segment list \<Rightarrow> pystr list" where
  "subtitle_filters str_float segments = segments_loop str_float segments []"

definition create_subtitle_filter :: "(rat \<Rightarrow> pystr) \<Rightarrow> segment list \<Rightarrow> pystr" where
  "create_subtitle_filter str_float segments = join (S '','') (subtitle_filters str_float segments)"


section \<open>Source fetcher: stream selection\<close>

text \<open>
  A stream of the video library's stream query. The library's resolution string
  (\<open>"720p"\<close>, \<open>"360p"\<close>, or none for an audio stream) is represented by its number of lines;
  this is the integer the library's \<open>order_by('resolution')\<close> sorts by.
\<close>

record stream =
  itag :: nat
  is_progressive :: bool
  subtype :: pystr
  resolution :: "nat option"

text \<open>\<open>streams.filter(progressive=True, file_extension='mp4', res='720p')\<close>\<close>

definition filter_progressive_mp4_res :: "nat \<Rightarrow> stream list \<Rightarrow> stream list" where
  "filter_progressive_mp4_res res streams =
     filter (\<lambda>s. resolution s = Some res \<and> subtype s = S ''mp4'' \<and> is_progressive s) streams"

text \<open>\<open>streams.filter(progressive=True, file_extension='mp4')\<close>\<close>

definition filter_progressive_mp4 :: "stream list \<Rightarrow> stream list" where
  "filter_progressive_mp4 streams =
     filter (\<lambda>s. subtype s = S ''mp4'' \<and> is_progressive s) streams"

text \<open>
  \<open>order_by('resolution')\<close> drops the streams without a resolution and sorts the others
  in ascending order, stably; \<open>desc()\<close> reverses; \<open>first()\<close> is the first element or
  \<open>None\<close>.
\<close>

definition order_by_resolution :: "stream list \<Rightarrow> stream list" where
  "order_by_resolution streams =
     sort_key (\<lambda>s. case resolution s of None \<Rightarrow> 0 | Some r \<Rightarrow> r)
       (filter (\<lambda>s. resolution s \<noteq> None) streams)"

definition desc :: "stream list \<Rightarrow> stream list" where
  "desc streams = rev streams"

definition first :: "stream list \<Rightarrow> stream option" where
  "first streams = (case streams of [] \<Rightarrow> None | s # _ \<Rightarrow> Some s)"

text \<open>
  The expression \<open>A.first() or B.first()\<close> of \<open>download_youtube_video\<close>; \<open>None\<close> is
  the case \<open>not stream\<close>.
\<close>

definition select_stream :: "stream list \<Rightarrow> stream option" where
  "select_stream streams =
     (case first (filter_progressive_mp4_res 720 streams) of
        Some s \<Rightarrow> Some s
      | None \<Rightarrow> first (desc (order_by_resolution (filter_progressive_mp4 streams))))"

section \<open>The world outside the program\<close>

text \<open>
  A path is its list of components. The file system maps a path to what is there: a
  directory, a text file with its content, or a media file written by an external tool
  (content not modelled).
\<close>

type_synonym path = "pystr list"

datatype node = Dir | Text pystr | Media

definition path_str :: "path \<Rightarrow> pystr" where
  "path_str p = concat (map (\<lambda>c. S ''/'' @ c) p)"

text \<open>\<open>os.path.join(d, name)\<close> for a single component \<open>name\<close>.\<close>

definition os_path_join :: "path \<Rightarrow> pystr \<Rightarrow> path" where
  "os_path_join d name = d @ [name]"

text \<open>Every exception the program handles is caught as \<open>Exception\<close> and used through \<open>str(e)\<close>.\<close>

datatype exn = Exception pystr

fun str :: "exn \<Rightarrow> pystr" where
  "str (Exception m) = m"

text \<open>
  The state: the file system, the number of temporary directories requested so far, the
  argument lists passed to \<open>subprocess.run\<close>, and the lines printed.
\<close>

record world =
  files :: "path \<Rightarrow> node option"
  tmp_count :: nat
  cmds :: "pystr list list"
  stdout :: "pystr list"

text \<open>
  What an external tool does with the file it is asked to write: it succeeds, or it fails
  with a message, having left the file behind or not.
\<close>

datatype outcome = Done | Failed pystr bool

text \<open>
  The external collaborators, as parameters: the temporary directory names, the
  text-to-speech engine, the transcriber, the video library, the encoder, faults of file
  removal and of opening a file for writing, and the printing of floats.
\<close>

record env =
  tmp_root :: path
  tmp_name :: "nat \<Rightarrow> pystr"
  tmp_fault :: "nat \<Rightarrow> pystr option"
  gtts :: "pystr \<Rightarrow> outcome"
  whisper :: "path \<Rightarrow> exn + segment list"
  youtube :: "pystr \<Rightarrow> exn + stream list"
  yt_name :: "pystr \<Rightarrow> stream \<Rightarrow> pystr"
  yt_fetch :: "pystr \<Rightarrow> stream \<Rightarrow> outcome"
  ffmpeg :: "pystr list \<Rightarrow> outcome"
  rm_fault :: "path \<Rightarrow> pystr option"
  open_fault :: "path \<Rightarrow> pystr option"
  str_float :: "rat \<Rightarrow> pystr"

definition print_line :: "pystr \<Rightarrow> world \<Rightarrow> world" where
  "print_line s w = w\<lparr>stdout := stdout w @ [s]\<rparr>"

text \<open>
  \<open>tempfile.mkdtemp()\<close>: creates a directory that did not exist and returns its path, or
  raises. The name is the one the environment gives for this call; the library's retries
  with other names on a collision are not modelled, the call raises at once.
\<close>

definition mkdtemp :: "env \<Rightarrow> world \<Rightarrow> (exn + path) \<times> world" where
  "mkdtemp e w =
     (let k = tmp_count w;
          p = tmp_root e @ [tmp_name e k];
          w' = w\<lparr>tmp_count := Suc k\<rparr>
      in case tmp_fault e k of
           Some m \<Rightarrow> (Inl (Exception m), w')
         | None \<Rightarrow>
             if files w p \<noteq> None
             then (Inl (Exception (S ''[Errno 17] No usable temporary directory name found'')), w')
             else (Inr p, w'\<lparr>files := (files w)(p \<mapsto> Dir)\<rparr>))"

text \<open>An external tool asked to write the file \<open>out\<close>.\<close>

definition write_result :: "outcome \<Rightarrow> path \<Rightarrow> world \<Rightarrow> (exn + unit) \<times> world" where
  "write_result r out w =
     (case r of
        Done \<Rightarrow> (Inr (), w\<lparr>files := (files w)(out \<mapsto> Media)\<rparr>)
      | Failed m partial \<Rightarrow>
          (Inl (Exception m), if partial then w\<lparr>files := (files w)(out \<mapsto> Media)\<rparr> else w))"

text \<open>\<open>subprocess.run(args, check=True)\<close> for a command whose output file is \<open>out\<close>.\<close>

definition subprocess_run :: "env \<Rightarrow> pystr list \<Rightarrow> path \<Rightarrow> world \<Rightarrow> (exn + unit) \<times> world" where
  "subprocess_run e args out w = write_result (ffmpeg e args) out (w\<lparr>cmds := cmds w @ [args]\<rparr>)"

text \<open>\<open>with open(p, 'w') as f\<close>, writing \<open>content\<close>.\<close>

definition write_text :: "env \<Rightarrow> path \<Rightarrow> pystr \<Rightarrow> world \<Rightarrow> (exn + unit) \<times> world" where
  "write_text e p content w =
     (case open_fault e p of
        Some m \<Rightarrow> (Inl (Exception m), w)
      | None \<Rightarrow> (Inr (), w\<lparr>files := (files w)(p \<mapsto> Text content)\<rparr>))"

section \<open>Temp workspace manager: \<open>clean_temp_files\<close>\<close>

definition isdir :: "world \<Rightarrow> path \<Rightarrow> bool" where
  "isdir w p \<longleftrightarrow> files w p = Some Dir"

definition exists :: "world \<Rightarrow> path \<Rightarrow> bool" where
  "exists w p \<longleftrightarrow> files w p \<noteq> None"

text \<open>
  \<open>shutil.rmtree(p)\<close> removes the directory and everything below it, and
  \<open>os.remove(p)\<close> the file. A removal that raises is taken to leave the file system as
  it was.
\<close>

definition rmtree :: "env \<Rightarrow> path \<Rightarrow> world \<Rightarrow> (exn + unit) \<times> world" where
  "rmtree e p w =
     (case rm_fault e p of
        Some m \<Rightarrow> (Inl (Exception m), w)
      | None \<Rightarrow> (Inr (), w\<lparr>files := (\<lambda>q. if prefix p q then None else files w q)\<rparr>))"

definition os_remove :: "env \<Rightarrow> path \<Rightarrow> world \<Rightarrow> (exn + unit) \<times> world" where
  "os_remove e p w =
     (case rm_fault e p of
        Some m \<Rightarrow> (Inl (Exception m), w)
      | None \<Rightarrow> (Inr (), w\<lparr>files := (files w)(p := None)\<rparr>))"

text \<open>The body of the \<open>try\<close> in the loop of \<open>clean_temp_files\<close>.\<close>

definition remove_path :: "env \<Rightarrow> path \<Rightarrow> world \<Rightarrow> (exn + unit) \<times> world" where
  "remove_path e p w =
     (if isdir w p then rmtree e p w
      else if exists w p then os_remove e p w
      else (Inr (), w))"

text \<open>The loop, with its \<open>except Exception\<close> clause that prints and goes on.\<close>

fun clean_temp_files :: "env \<Rightarrow> path list \<Rightarrow> world \<Rightarrow> (exn + unit) \<times> world" where
  "clean_temp_files e [] w = (Inr (), w)"
| "clean_temp_files e (p # temp_paths) w =
     (case remove_path e p w of
        (Inr _, w') \<Rightarrow> clean_temp_files e temp_paths w'
      | (Inl x, w') \<Rightarrow>
          clean_temp_files e temp_paths
            (print_line (S ''Error cleaning up '' @ path_str p @ S '': '' @ str x) w'))"

section \<open>Source fetcher: \<open>download_youtube_video\<close>\<close>

text \<open>\<open>stream.download(output_path=temp_dir)\<close> returns the path of the file it wrote.\<close>

definition stream_download ::
  "env \<Rightarrow> pystr \<Rightarrow> stream \<Rightarrow> path \<Rightarrow> world \<Rightarrow> (exn + path) \<times> world" where
  "stream_download e url stream output_path w =
     (let p = os_path_join output_path (yt_name e url stream)
      in case write_result (yt_fetch e url stream) p w of
           (Inl x, w') \<Rightarrow> (Inl x, w')
         | (Inr _, w') \<Rightarrow> (Inr p, w'))"

text \<open>The \<open>except\<close> clause of \<open>download_youtube_video\<close> wraps every exception.\<close>

definition download_failed :: "exn \<Rightarrow> exn" where
  "download_failed x = Exception (S ''YouTube download failed: '' @ str x)"

definition download_youtube_video ::
  "env \<Rightarrow> pystr \<Rightarrow> world \<Rightarrow> (exn + path \<times> path) \<times> world" where
  "download_youtube_video e url w =
     (case youtube e url of
        Inl x \<Rightarrow> (Inl (download_failed x), w)
      | Inr streams \<Rightarrow>
          (case select_stream streams of
             None \<Rightarrow> (Inl (download_failed (Exception (S ''No suitable video stream found''))), w)
           | Some stream \<Rightarrow>
               (case mkdtemp e w of
                  (Inl x, w1) \<Rightarrow> (Inl (download_failed x), w1)
                | (Inr temp_dir, w1) \<Rightarrow>
                    (case stream_download e url stream temp_dir w1 of
                       (Inl x, w2) \<Rightarrow> (Inl (download_failed x), w2)
                     | (Inr video_path, w2) \<Rightarrow> (Inr (video_path, temp_dir), w2)))))"

section \<open>Pipeline orchestrator: \<open>process_video\<close>\<close>

text \<open>
  Step 3, the loop over \<open>youtube_urls\<close>. It carries \<open>video_segments\<close> and
  \<open>temp_paths\<close> and stops at the first exception.
\<close>

fun download_loop ::
  "env \<Rightarrow> pystr list \<Rightarrow> path list \<Rightarrow> path list \<Rightarrow> world \<Rightarrow>
   (exn + unit) \<times> path list \<times> path list \<times> world" where
  "download_loop e [] video_segments temp_paths w = (Inr (), video_segments, temp_paths, w)"
| "download_loop e (url # urls) video_segments temp_paths w =
     (case download_youtube_video e url w of
        (Inl x, w') \<Rightarrow> (Inl x, video_segments, temp_paths, w')
      | (Inr (video_path, temp_dir), w') \<Rightarrow>
          download_loop e urls (video_segments @ [video_path])
            (temp_paths @ [video_path, temp_dir]) w')"

text \<open>The loop that writes one line \<open>file '<video>'\<close> per video into the concat list.\<close>

fun write_lines :: "path list \<Rightarrow> pystr \<Rightarrow> pystr" where
  "write_lines [] content = content"
| "write_lines (video # rest) content =
     write_lines rest (content @ S ''file '' @ [39] @ path_str video @ [39, 10])"

definition concat_args :: "path \<Rightarrow> path \<Rightarrow> pystr list" where
  "concat_args concat_list combined_video =
     [S ''ffmpeg'', S ''-f'', S ''concat'', S ''-safe'', S ''0'',
      S ''-i'', path_str concat_list, S ''-c'', S ''copy'', path_str combined_video]"

text \<open>
  Step 4. With more than one video the list file is written and the encoder run; otherwise
  \<open>video_segments[0]\<close> is taken, which raises on an empty list.
\<close>

definition combine_videos ::
  "env \<Rightarrow> path \<Rightarrow> path list \<Rightarrow> path list \<Rightarrow> world \<Rightarrow> (exn + path) \<times> path list \<times> world" where
  "combine_videos e work_dir video_segments temp_paths w =
     (if length video_segments > 1 then
        (let w1 = print_line ([128260] @ S '' Combining videos...'') w;
             concat_list = os_path_join work_dir (S ''concat.txt'')
         in case write_text e concat_list (write_lines video_segments []) w1 of
              (Inl x, w2) \<Rightarrow> (Inl x, temp_paths, w2)
            | (Inr _, w2) \<Rightarrow>
                (let combined_video = os_path_join work_dir (S ''combined.mp4'')
                 in case subprocess_run e (concat_args concat_list combined_video)
                           combined_video w2 of
                      (Inl x, w3) \<Rightarrow> (Inl x, temp_paths, w3)
                    | (Inr _, w3) \<Rightarrow>
                        (Inr combined_video, temp_paths @ [concat_list, combined_video], w3)))
      else
        (case video_segments of
           [] \<Rightarrow> (Inl (Exception (S ''list index out of range'')), temp_paths, w)
         | video # _ \<Rightarrow> (Inr video, temp_paths, w)))"

text \<open>The argument list of the final encoder run.\<close>

definition mux_args :: "path \<Rightarrow> path \<Rightarrow> pystr \<Rightarrow> path \<Rightarrow> pystr list" where
  "mux_args input_video voice_path subtitle_filter output_path =
     [S ''ffmpeg'', S ''-y'',
      S ''-i'', path_str input_video,
      S ''-i'', path_str voice_path,
      S ''-vf'', subtitle_filter,
      S ''-map'', S ''0:v'',
      S ''-map'', S ''1:a'',
      S ''-c:v'', S ''libx264'',
      S ''-preset'', S ''fast'',
      S ''-crf'', S ''23'',
      S ''-c:a'', S ''aac'',
      S ''-shortest'',
      path_str output_path]"

text \<open>
  The body of the \<open>try\<close> of \<open>process_video\<close>. Besides the result it returns
  \<open>temp_paths\<close> as it is when the body is left, which the handler needs.
\<close>

definition process_body ::
  "env \<Rightarrow> pystr \<Rightarrow> pystr list \<Rightarrow> world \<Rightarrow> (exn + path) \<times> path list \<times> world" where
  "process_body e story_text youtube_urls w =
     (case mkdtemp e w of
        (Inl x, w1) \<Rightarrow> (Inl x, [], w1)
      | (Inr work_dir, w1) \<Rightarrow>
          (let w2 = print_line ([127908] @ S '' Generating voice narration...'') w1;
               voice_path = os_path_join work_dir (S ''narration.mp3'')
           in case write_result (gtts e story_text) voice_path w2 of
                (Inl x, w3) \<Rightarrow> (Inl x, [work_dir], w3)
              | (Inr _, w3) \<Rightarrow>
                  (let w4 = print_line ([128221] @ S '' Creating transcript...'') w3
                   in case whisper e voice_path of
                        Inl x \<Rightarrow> (Inl x, [work_dir, voice_path], w4)
                      | Inr segments \<Rightarrow>
                          (let w5 = print_line ([128229] @ S '' Downloading videos...'') w4
                           in case download_loop e youtube_urls [] [work_dir, voice_path] w5 of
                                (Inl x, video_segments, temp_paths, w6) \<Rightarrow> (Inl x, temp_paths, w6)
                              | (Inr _, video_segments, temp_paths, w6) \<Rightarrow>
                                  (case combine_videos e work_dir video_segments temp_paths w6 of
                                     (Inl x, temp_paths, w7) \<Rightarrow> (Inl x, temp_paths, w7)
                                   | (Inr input_video, temp_paths, w7) \<Rightarrow>
                                       (let w8 = print_line ([127916] @ S '' Creating final video...'') w7;
                                            output_path = os_path_join work_dir (S ''final_output.mp4'');
                                            subtitle_filter = create_subtitle_filter (str_float e) segments
                                        in case subprocess_run e
                                                  (mux_args input_video voice_path subtitle_filter output_path)
                                                  output_path w8 of
                                             (Inl x, w9) \<Rightarrow> (Inl x, temp_paths, w9)
                                           | (Inr _, w9) \<Rightarrow> (Inr output_path, temp_paths, w9)))))))"

text \<open>
  \<open>process_video\<close>: the body, and the handler that cleans what is registered and raises
  the wrapped exception. An exception raised by the cleanup itself would replace it.
\<close>

definition process_video ::
  "env \<Rightarrow> pystr \<Rightarrow> pystr list \<Rightarrow> world \<Rightarrow> (exn + path \<times> path list) \<times> world" where
  "process_video e story_text youtube_urls w =
     (case process_body e story_text youtube_urls w of
        (Inr output_path, temp_paths, w') \<Rightarrow> (Inr (output_path, temp_paths), w')
      | (Inl x, temp_paths, w') \<Rightarrow>
          (case clean_temp_files e temp_paths w' of
             (Inl x', w'') \<Rightarrow> (Inl x', w'')
           | (Inr _, w'') \<Rightarrow>
               (Inl (Exception (S ''Video processing failed: '' @ str x)), w'')))"

section \<open>The endpoint: \<open>generate_video\<close>\<close>

text \<open>
  The JSON body of a request: the keys \<open>prompt\<close> and \<open>links\<close>, each possibly absent.
  A response is a JSON error with its status code, or the file sent with its MIME type
  and download name.
\<close>

record request =
  prompt :: "pystr option"
  links :: "pystr list option"

datatype response = JsonError pystr nat | SendFile path pystr pystr

definition send_file :: "world \<Rightarrow> path \<Rightarrow> pystr \<Rightarrow> pystr \<Rightarrow> exn + response" where
  "send_file w p mimetype download_name =
     (case files w p of
        None \<Rightarrow>
          Inl (Exception (S ''[Errno 2] No such file or directory: '' @ [39] @ path_str p @ [39]))
      | Some Dir \<Rightarrow>
          Inl (Exception (S ''[Errno 21] Is a directory: '' @ [39] @ path_str p @ [39]))
      | Some _ \<Rightarrow> Inr (SendFile p mimetype download_name))"

definition generate_video :: "env \<Rightarrow> request \<Rightarrow> world \<Rightarrow> response \<times> world" where
  "generate_video e data w =
     (let story = (case prompt data of None \<Rightarrow> [] | Some t \<Rightarrow> t);
          youtube_links = (case links data of None \<Rightarrow> [] | Some ls \<Rightarrow> ls)
      in if story = [] \<or> youtube_links = []
         then (JsonError (S ''Missing prompt or video links'') 400, w)
         else if length youtube_links > 10
         then (JsonError (S ''Maximum 10 videos allowed'') 400, w)
         else
           (case process_video e story youtube_links w of
              (Inl x, w1) \<Rightarrow> (JsonError (str x) 500, w1)
            | (Inr (output_file, temp_paths), w1) \<Rightarrow>
                (let sent = send_file w1 output_file (S ''video/mp4'') (S ''generated_video.mp4'')
                 in case clean_temp_files e temp_paths w1 of
                      (Inl x', w2) \<Rightarrow> (JsonError (str x') 500, w2)
                    | (Inr _, w2) \<Rightarrow>
                        (case sent of
                           Inl x \<Rightarrow> (JsonError (str x) 500, w2)
                         | Inr resp \<Rightarrow> (resp, w2)))))"

section \<open>Example inputs\<close>

text \<open>
  Three streams as the video library lists them: itag 18 (360p), itag 22 (720p) and itag
  37 (1080p), all progressive MP4.
\<close>

definition stream_360p :: stream where
  "stream_360p = \<lparr>itag = 18, is_progressive = True, subtype = S ''mp4'', resolution = Some 360\<rparr>"

definition stream_720p :: stream where
  "stream_720p = \<lparr>itag = 22, is_progressive = True, subtype = S ''mp4'', resolution = Some 720\<rparr>"

definition stream_1080p :: stream where
  "stream_1080p = \<lparr>itag = 37, is_progressive = True, subtype = S ''mp4'', resolution = Some 1080\<rparr>"

text \<open>
  An environment in which every collaborator succeeds: temporary directories
  \<open>/tmp/t\<close>, \<open>/tmp/tt\<close>, ..., a transcript of one word, two streams per URL, downloads
  named after the URL.
\<close>

definition ok_env :: env where
  "ok_env =
     \<lparr>tmp_root = [S ''tmp''],
      tmp_name = (\<lambda>k. replicate (Suc k) 116),
      tmp_fault = (\<lambda>k. None),
      gtts = (\<lambda>text. Done),
      whisper = (\<lambda>p. Inr [\<lparr>words = Some [\<lparr>word = S ''Hello'', start = 0, end_time = 1 / 2\<rparr>]\<rparr>]),
      youtube = (\<lambda>url. Inr [stream_360p, stream_720p]),
      yt_name = (\<lambda>url s. url @ S ''.mp4''),
      yt_fetch = (\<lambda>url s. Done),
      ffmpeg = (\<lambda>args. Done),
      rm_fault = (\<lambda>p. None),
      open_fault = (\<lambda>p. None),
      str_float = (\<lambda>t. if t = 0 then S ''0.0'' else S ''0.5'')\<rparr>"

text \<open>The empty file system, before any request.\<close>

definition world0 :: world where
  "world0 = \<lparr>files = (\<lambda>p. None), tmp_count = 0, cmds = [], stdout = []\<rparr>"

section \<open>Observations used to state the properties\<close>

text \<open>
  The relation between a URL and the file downloaded for it: the library lists the
  streams of the URL, \<open>select_stream\<close> picks one, its download succeeds, and the file
  bears the name the library gives that download, below the temporary root.
\<close>

definition fetched_from :: "env \<Rightarrow> pystr \<Rightarrow> path \<Rightarrow> bool" where
  "fetched_from e url video \<longleftrightarrow>
     (case youtube e url of
        Inl _ \<Rightarrow> False
      | Inr streams \<Rightarrow>
          (case select_stream streams of
             None \<Rightarrow> False
           | Some s \<Rightarrow> yt_fetch e url s = Done \<and> prefix (tmp_root e) video \<and>
               video \<noteq> [] \<and> last video = yt_name e url s))"

text \<open>An environment in which the download of \<open>urlB\<close> fails and every other step succeeds.\<close>

definition fetch_fail_env :: env where
  "fetch_fail_env = ok_env\<lparr>yt_fetch :=
     (\<lambda>url s. if url = S ''urlB'' then Failed (S ''HTTP Error 403: Forbidden'') False else Done)\<rparr>"



text \<open>An environment in which the workspace directory \<open>/tmp/t\<close> cannot be removed.\<close>

definition rm_fail_env :: env where
  "rm_fail_env = ok_env\<lparr>rm_fault :=
     (\<lambda>p. if p = [S ''tmp'', S ''t''] then Some (S ''Permission denied'') else None)\<rparr>"

text \<open>
  The file system after a job with one URL, and the paths the job registered, in the
  order \<open>process_video\<close> registers them: the workspace, the narration inside it, the
  downloaded file and then the scratch directory that contains it.
\<close>

definition world1 :: world where
  "world1 = world0\<lparr>files :=
     (\<lambda>p. None)([S ''tmp'', S ''t''] \<mapsto> Dir,
                [S ''tmp'', S ''t'', S ''narration.mp3''] \<mapsto> Media,
                [S ''tmp'', S ''tt''] \<mapsto> Dir,
                [S ''tmp'', S ''tt'', S ''urlA.mp4''] \<mapsto> Media)\<rparr>"

definition paths1 :: "path list" where
  "paths1 = [[S ''tmp'', S ''t''], [S ''tmp'', S ''t'', S ''narration.mp3''],
             [S ''tmp'', S ''tt'', S ''urlA.mp4''], [S ''tmp'', S ''tt'']]"

section \<open>Properties of the caption overlay compiler\<close>

lemma S_append: "S (a @ b) = S a @ S b"
  by (simp add: S_def)

lemma S_inject [simp]: "S a = S b \<longleftrightarrow> a = b"
proof -
  have "inj (of_char :: char \<Rightarrow> nat)"
    by (rule injI) simp
  then show ?thesis
    unfolding S_def by simp
qed

lemma range_az: "(97 \<le> c \<and> c \<le> 122) \<longleftrightarrow> c \<in> set (S ''abcdefghijklmnopqrstuvwxyz'')"
proof -
  have "{c::nat. 97 \<le> c \<and> c \<le> 122} = set [97..<123]"
    by (simp only: set_upt) auto
  also have "\<dots> = set (S ''abcdefghijklmnopqrstuvwxyz'')"
    by (simp add: S_def)
  finally show ?thesis by blast
qed

lemma range_AZ: "(65 \<le> c \<and> c \<le> 90) \<longleftrightarrow> c \<in> set (S ''ABCDEFGHIJKLMNOPQRSTUVWXYZ'')"
proof -
  have "{c::nat. 65 \<le> c \<and> c \<le> 90} = set [65..<91]"
    by (simp only: set_upt) auto
  also have "\<dots> = set (S ''ABCDEFGHIJKLMNOPQRSTUVWXYZ'')"
    by (simp add: S_def)
  finally show ?thesis by blast
qed

lemma range_09: "(48 \<le> c \<and> c \<le> 57) \<longleftrightarrow> c \<in> set (S ''0123456789'')"
proof -
  have "{c::nat. 48 \<le> c \<and> c \<le> 57} = set [48..<58]"
    by (simp only: set_upt) auto
  also have "\<dots> = set (S ''0123456789'')"
    by (simp add: S_def)
  finally show ?thesis by blast
qed

text \<open>The character class, read as ranges of code points, is the set of the 67 characters it lists.\<close>

lemma in_class_iff:
  "in_class c \<longleftrightarrow>
   c \<in> set (S ''abcdefghijklmnopqrstuvwxyzABCDEFGHIJKLMNOPQRSTUVWXYZ0123456789,.?! '')"
proof -
  have parts: "S ''abcdefghijklmnopqrstuvwxyzABCDEFGHIJKLMNOPQRSTUVWXYZ0123456789,.?! '' =
      S ''abcdefghijklmnopqrstuvwxyz'' @ S ''ABCDEFGHIJKLMNOPQRSTUVWXYZ'' @ S ''0123456789'' @
      [44, 46, 63, 33, 32]"
    by (simp add: S_def)
  have "in_class c \<longleftrightarrow>
      (97 \<le> c \<and> c \<le> 122) \<or> (65 \<le> c \<and> c \<le> 90) \<or> (48 \<le> c \<and> c \<le> 57) \<or>
      c \<in> set [44, 46, 63, 33, 32]"
    by (simp add: in_class_def)
  then show ?thesis
    unfolding parts set_append Un_iff range_az range_AZ range_09 .
qed

lemma words_loop_eq: "words_loop f ws acc = acc @ map (filter_text f) ws"
  by (induction ws arbitrary: acc) simp_all

lemma segments_loop_eq:
  "segments_loop f segs acc = acc @ map (filter_text f) (concat (map segment_words segs))"
  by (induction segs arbitrary: acc) (simp_all add: words_loop_eq)

lemma subtitle_filters_eq:
  "subtitle_filters f segs = map (filter_text f) (concat (map segment_words segs))"
  by (simp add: subtitle_filters_def segments_loop_eq)

lemma join_eq:
  "join sep xs = (if xs = [] then [] else concat (map (\<lambda>x. x @ sep) (butlast xs)) @ last xs)"
  by (induction sep xs rule: join.induct) simp_all

lemma clean_text_eq:
  "clean_text text =
   filter (\<lambda>c. c \<in> set (S ''abcdefghijklmnopqrstuvwxyzABCDEFGHIJKLMNOPQRSTUVWXYZ0123456789,.?! '')) text"
  unfolding clean_text_def using in_class_iff by (intro filter_cong) auto

lemma filter_text_eq:
  "filter_text fmt word_info =
     S ''drawtext=font='' @ [39] @ S ''Arial'' @ [39] @ S '':text='' @ [39] @
     filter (\<lambda>c. c \<in> set (S ''abcdefghijklmnopqrstuvwxyzABCDEFGHIJKLMNOPQRSTUVWXYZ0123456789,.?! ''))
       (word word_info) @ [39] @
     S '':fontsize=60:fontcolor=white:bordercolor=black:borderw=2:x=(w-text_w)/2:y=(h-text_h)/2:enable='' @
     [39] @ S ''between(t,'' @ fmt (start word_info) @ S '','' @ fmt (end_time word_info) @ S '')'' @ [39]"
  unfolding filter_text_def Let_def clean_text_eq by (simp add: S_def)

lemma segment_words_eq:
  "segment_words = (\<lambda>segment. case words segment of None \<Rightarrow> [] | Some ws \<Rightarrow> ws)"
  by (rule ext) (simp add: segment_words_def)

lemma fmt_word:
  "filter (\<lambda>c. c \<in> set (S ''abcdefghijklmnopqrstuvwxyzABCDEFGHIJKLMNOPQRSTUVWXYZ0123456789,.?! ''))
     (S ''***'') = []"
  "filter (\<lambda>c. c \<in> set (S ''abcdefghijklmnopqrstuvwxyzABCDEFGHIJKLMNOPQRSTUVWXYZ0123456789,.?! ''))
     (S ''Hi!'') = S ''Hi!''"
  by (simp_all add: S_def)

section \<open>Properties of the stream selection\<close>

lemma first_filter_Some:
  "first (filter P xs) = Some s \<Longrightarrow> P s \<and> s \<in> set xs"
  by (induction xs) (auto simp: first_def split: if_splits)

lemma first_None: "first xs = None \<longleftrightarrow> xs = []"
  by (cases xs) (simp_all add: first_def)

text \<open>When a progressive MP4 stream of 720p exists, such a stream is selected.\<close>

lemma select_stream_prefers_720p:
  assumes "\<exists>s\<in>set streams. resolution s = Some 720 \<and> subtype s = S ''mp4'' \<and> is_progressive s"
  shows "\<exists>s\<in>set streams. select_stream streams = Some s \<and> resolution s = Some 720 \<and>
      subtype s = S ''mp4'' \<and> is_progressive s"
proof -
  from assms have "filter_progressive_mp4_res 720 streams \<noteq> []"
    by (auto simp: filter_progressive_mp4_res_def filter_empty_conv)
  then obtain s where s: "first (filter_progressive_mp4_res 720 streams) = Some s"
    using first_None by (cases "first (filter_progressive_mp4_res 720 streams)") auto
  then have "resolution s = Some 720 \<and> subtype s = S ''mp4'' \<and> is_progressive s \<and> s \<in> set streams"
    using first_filter_Some [of _ streams s] unfolding filter_progressive_mp4_res_def by fastforce
  with s show ?thesis by (auto simp: select_stream_def)
qed

section \<open>Properties of the cleanup\<close>

lemma files_print_line [simp]: "files (print_line s w) = files w"
  by (simp add: print_line_def)

lemma remove_path_cases:
  "files w p = None \<and> remove_path e p w = (Inr (), w) \<or>
   files w p \<noteq> None \<and> (\<exists>m. rm_fault e p = Some m \<and> remove_path e p w = (Inl (Exception m), w)) \<or>
   files w p \<noteq> None \<and> rm_fault e p = None \<and>
     (\<exists>w'. remove_path e p w = (Inr (), w') \<and> files w' p = None \<and>
        (\<forall>q. files w q = None \<longrightarrow> files w' q = None))"
  by (cases "rm_fault e p")
     (auto simp: remove_path_def isdir_def exists_def rmtree_def os_remove_def)

lemma clean_never_raises: "fst (clean_temp_files e ps w) = Inr ()"
  by (induction ps arbitrary: w) (auto split: prod.splits sum.splits)

lemma clean_keeps_absent:
  "files w q = None \<Longrightarrow> files (snd (clean_temp_files e ps w)) q = None"
proof (induction ps arbitrary: w)
  case Nil
  then show ?case by simp
next
  case (Cons p ps)
  from remove_path_cases [where e = e and p = p and w = w] Cons show ?case
    by (auto split: prod.splits sum.splits)
qed

lemma clean_removes:
  "p \<in> set ps \<Longrightarrow> rm_fault e p = None \<Longrightarrow> files (snd (clean_temp_files e ps w)) p = None"
proof (induction ps arbitrary: w)
  case Nil
  then show ?case by simp
next
  case (Cons a ps)
  from remove_path_cases [where e = e and p = a and w = w] Cons show ?case
    by (auto split: prod.splits sum.splits simp: clean_keeps_absent)
qed

lemma clean_skip: "files w p = None \<Longrightarrow> clean_temp_files e (p # ps) w = clean_temp_files e ps w"
  by (simp add: remove_path_def isdir_def exists_def)

lemma clean_all_absent:
  "\<forall>p\<in>set ps. files w p = None \<Longrightarrow> clean_temp_files e ps w = (Inr (), w)"
  by (induction ps arbitrary: w) (simp_all add: remove_path_def isdir_def exists_def)

lemma clean_stuck:
  "\<forall>p\<in>set ps. files w p = None \<or> rm_fault e p \<noteq> None \<Longrightarrow>
   files (snd (clean_temp_files e ps w)) = files w"
proof (induction ps arbitrary: w)
  case Nil
  then show ?case by simp
next
  case (Cons a ps)
  from remove_path_cases [where e = e and p = a and w = w] Cons.prems show ?case
    by (auto split: prod.splits sum.splits simp: Cons.IH)
qed

lemma clean_idem_files:
  "files (snd (clean_temp_files e ps (snd (clean_temp_files e ps w)))) =
   files (snd (clean_temp_files e ps w))"
  by (rule clean_stuck) (use clean_removes in fastforce)

section \<open>Properties of the pipeline\<close>

lemma mkdtemp_Inr:
  "mkdtemp e w = (Inr p, w') \<Longrightarrow>
   p = tmp_root e @ [tmp_name e (tmp_count w)] \<and> files w p = None \<and>
   w' = w\<lparr>tmp_count := Suc (tmp_count w), files := (files w)(p \<mapsto> Dir)\<rparr>"
  by (auto simp: mkdtemp_def Let_def split: option.splits if_splits)

lemma write_result_Inr:
  "write_result r out w = (Inr u, w') \<Longrightarrow> r = Done \<and> w' = w\<lparr>files := (files w)(out \<mapsto> Media)\<rparr>"
  by (auto simp: write_result_def split: outcome.splits)

lemma download_Inr:
  "download_youtube_video e url w = (Inr (v, d), w') \<Longrightarrow>
   fetched_from e url v \<and> cmds w' = cmds w"
  by (auto simp: download_youtube_video_def fetched_from_def stream_download_def os_path_join_def
      Let_def dest!: mkdtemp_Inr write_result_Inr split: sum.splits option.splits prod.splits)

lemma download_loop_Inr:
  "download_loop e urls vs tp w = (Inr u, vs', tp', w') \<Longrightarrow>
   \<exists>vids. vs' = vs @ vids \<and> list_all2 (fetched_from e) urls vids \<and> cmds w' = cmds w"
proof (induction urls arbitrary: vs tp w)
  case Nil
  then show ?case by simp
next
  case (Cons url urls)
  from Cons.prems obtain v d w1 where
    d: "download_youtube_video e url w = (Inr (v, d), w1)" and
    r: "download_loop e urls (vs @ [v]) (tp @ [v, d]) w1 = (Inr u, vs', tp', w')"
    by (auto split: prod.splits sum.splits)
  from Cons.IH [OF r] obtain vids where
    "vs' = (vs @ [v]) @ vids" "list_all2 (fetched_from e) urls vids" "cmds w' = cmds w1"
    by blast
  with download_Inr [OF d] show ?case
    by (intro exI [of _ "v # vids"]) simp
qed

lemma write_lines_eq:
  "write_lines vs content =
   content @ concat (map (\<lambda>video. S ''file '' @ [39] @ path_str video @ [39, 10]) vs)"
  by (induction vs arbitrary: content) simp_all


lemma subprocess_run_Inr:
  "subprocess_run e args out w = (Inr u, w') \<Longrightarrow>
   ffmpeg e args = Done \<and> w' = w\<lparr>cmds := cmds w @ [args], files := (files w)(out \<mapsto> Media)\<rparr>"
  by (auto simp: subprocess_run_def dest!: write_result_Inr)

lemma write_text_Inr:
  "write_text e p content w = (Inr u, w') \<Longrightarrow> w' = w\<lparr>files := (files w)(p \<mapsto> Text content)\<rparr>"
  by (auto simp: write_text_def split: option.splits)

lemma combine_Inr:
  "combine_videos e wd vs tp w = (Inr iv, tp', w') \<Longrightarrow>
   (\<exists>v. vs = [v] \<and> iv = v \<and> w' = w \<and> tp' = tp) \<or>
   (length vs > 1 \<and> iv = wd @ [S ''combined.mp4''] \<and>
    cmds w' = cmds w @ [concat_args (wd @ [S ''concat.txt'']) iv] \<and>
    files w' (wd @ [S ''concat.txt'']) = Some (Text (write_lines vs [])))"
proof (cases "length vs > 1")
  case True
  assume a: "combine_videos e wd vs tp w = (Inr iv, tp', w')"
  let ?w1 = "print_line ([128260] @ S '' Combining videos...'') w"
  let ?cl = "wd @ [S ''concat.txt'']"
  from a True obtain u w2 where
    w2: "write_text e ?cl (write_lines vs []) ?w1 = (Inr u, w2)"
    by (auto simp: combine_videos_def Let_def os_path_join_def split: prod.splits sum.splits)
  with a True obtain u' where
    w3: "subprocess_run e (concat_args ?cl (wd @ [S ''combined.mp4''])) (wd @ [S ''combined.mp4'']) w2 = (Inr u', w')"
    and iv: "iv = wd @ [S ''combined.mp4'']"
    by (auto simp: combine_videos_def Let_def os_path_join_def split: prod.splits sum.splits)
  from write_text_Inr [OF w2] subprocess_run_Inr [OF w3] iv True show ?thesis
    by (simp add: print_line_def)
next
  case False
  assume a: "combine_videos e wd vs tp w = (Inr iv, tp', w')"
  with False show ?thesis
    by (cases vs) (auto simp: combine_videos_def)
qed

lemma process_body_Inr:
  assumes "process_body e story urls w = (Inr out, tp, w')"
  defines "wd \<equiv> tmp_root e @ [tmp_name e (tmp_count w)]"
  shows "\<exists>segments vids input_video.
     gtts e story = Done \<and> whisper e (wd @ [S ''narration.mp3'']) = Inr segments \<and>
     list_all2 (fetched_from e) urls vids \<and> out = wd @ [S ''final_output.mp4''] \<and>
     ffmpeg e (mux_args input_video (wd @ [S ''narration.mp3''])
               (create_subtitle_filter (str_float e) segments) out) = Done \<and>
     ((\<exists>v. vids = [v] \<and> input_video = v \<and>
         cmds w' = cmds w @ [mux_args input_video (wd @ [S ''narration.mp3''])
               (create_subtitle_filter (str_float e) segments) out]) \<or>
      (length vids > 1 \<and> input_video = wd @ [S ''combined.mp4''] \<and>
         cmds w' = cmds w @ [concat_args (wd @ [S ''concat.txt'']) input_video,
             mux_args input_video (wd @ [S ''narration.mp3''])
               (create_subtitle_filter (str_float e) segments) out] \<and>
         files w' (wd @ [S ''concat.txt'']) = Some (Text (write_lines vids []))))"
proof -
  let ?voice = "wd @ [S ''narration.mp3'']"
  let ?out = "wd @ [S ''final_output.mp4'']"
  from assms(1) obtain work_dir w1 where
    m: "mkdtemp e w = (Inr work_dir, w1)"
    by (auto simp: process_body_def split: prod.splits sum.splits)
  from mkdtemp_Inr [OF m] have wd: "work_dir = wd" and c1: "cmds w1 = cmds w"
    by (simp_all add: wd_def)
  let ?w2 = "print_line ([127908] @ S '' Generating voice narration...'') w1"
  from assms(1) m wd obtain u w3 where
    t: "write_result (gtts e story) ?voice ?w2 = (Inr u, w3)"
    by (auto simp: process_body_def Let_def os_path_join_def split: prod.splits sum.splits)
  from write_result_Inr [OF t] have g: "gtts e story = Done" and c3: "cmds w3 = cmds w"
    by (simp_all add: print_line_def c1)
  let ?w4 = "print_line ([128221] @ S '' Creating transcript...'') w3"
  from assms(1) m wd t obtain segments where
    s: "whisper e ?voice = Inr segments"
    by (auto simp: process_body_def Let_def os_path_join_def split: prod.splits sum.splits)
  let ?w5 = "print_line ([128229] @ S '' Downloading videos...'') ?w4"
  from assms(1) m wd t s obtain u' vids tp6 w6 where
    d: "download_loop e urls [] [wd, ?voice] ?w5 = (Inr u', vids, tp6, w6)"
    by (auto simp: process_body_def Let_def os_path_join_def split: prod.splits sum.splits)
  from download_loop_Inr [OF d] have
    l: "list_all2 (fetched_from e) urls vids" and c6: "cmds w6 = cmds w"
    by (auto simp: print_line_def c3)
  from assms(1) m wd t s d obtain iv tp7 w7 where
    c: "combine_videos e wd vids tp6 w6 = (Inr iv, tp7, w7)"
    by (auto simp: process_body_def Let_def os_path_join_def split: prod.splits sum.splits)
  let ?w8 = "print_line ([127916] @ S '' Creating final video...'') w7"
  let ?args = "mux_args iv ?voice (create_subtitle_filter (str_float e) segments) ?out"
  from assms(1) m wd t s d c obtain u'' where
    x: "subprocess_run e ?args ?out ?w8 = (Inr u'', w')" and o: "out = ?out"
    by (auto simp: process_body_def Let_def os_path_join_def split: prod.splits sum.splits)
  from subprocess_run_Inr [OF x] have
    f: "ffmpeg e ?args = Done" and c9: "cmds w' = cmds w7 @ [?args]" and
    f9: "files w' = (files w7)(?out \<mapsto> Media)"
    by (simp_all add: print_line_def)
  from combine_Inr [OF c] show ?thesis
  proof
    assume "\<exists>v. vids = [v] \<and> iv = v \<and> w7 = w6 \<and> tp7 = tp6"
    with g s l o f c9 c6 show ?thesis by auto
  next
    assume b: "1 < length vids \<and> iv = wd @ [S ''combined.mp4''] \<and>
      cmds w7 = cmds w6 @ [concat_args (wd @ [S ''concat.txt'']) iv] \<and>
      files w7 (wd @ [S ''concat.txt'']) = Some (Text (write_lines vids []))"
    then have "files w' (wd @ [S ''concat.txt'']) = Some (Text (write_lines vids []))"
      using f9 by simp
    with b g s l o f c9 c6 show ?thesis by auto
  qed
qed


lemma mkdtemp_ok:
  "tmp_fault e (tmp_count w) = None \<Longrightarrow>
   files w (tmp_root e @ [tmp_name e (tmp_count w)]) = None \<Longrightarrow>
   mkdtemp e w =
     (Inr (tmp_root e @ [tmp_name e (tmp_count w)]),
      w\<lparr>tmp_count := Suc (tmp_count w),
        files := (files w)(tmp_root e @ [tmp_name e (tmp_count w)] \<mapsto> Dir)\<rparr>)"
  by (simp add: mkdtemp_def Let_def)

lemma download_ok:
  assumes "youtube e url = Inr streams" "select_stream streams = Some s"
    "yt_fetch e url s = Done" "tmp_fault e (tmp_count w) = None"
    "files w (tmp_root e @ [tmp_name e (tmp_count w)]) = None"
  shows "download_youtube_video e url w =
     (Inr (tmp_root e @ [tmp_name e (tmp_count w), yt_name e url s],
           tmp_root e @ [tmp_name e (tmp_count w)]),
      w\<lparr>tmp_count := Suc (tmp_count w),
        files := (files w)(tmp_root e @ [tmp_name e (tmp_count w)] \<mapsto> Dir,
                           tmp_root e @ [tmp_name e (tmp_count w), yt_name e url s] \<mapsto> Media)\<rparr>)"
  using assms
  by (simp add: download_youtube_video_def mkdtemp_ok stream_download_def os_path_join_def
      write_result_def Let_def)



lemma cmds_subprocess_run:
  "cmds (snd (subprocess_run e args out w)) = cmds w @ [args]"
  by (simp add: subprocess_run_def write_result_def split: outcome.splits)

lemma cmds_remove_path: "cmds (snd (remove_path e p w)) = cmds w"
  by (simp add: remove_path_def rmtree_def os_remove_def split: option.splits)

lemma cmds_clean: "cmds (snd (clean_temp_files e ps w)) = cmds w"
proof (induction ps arbitrary: w)
  case Nil
  then show ?case by simp
next
  case (Cons p ps)
  from cmds_remove_path [of e p w] show ?case
    by (cases "remove_path e p w") (auto simp: Cons.IH print_line_def split: sum.splits)
qed


lemma cmds_process_video:
  "cmds (snd (process_video e story urls w)) = cmds (snd (snd (process_body e story urls w)))"
proof (cases "process_body e story urls w")
  case (fields r tp w')
  show ?thesis
  proof (cases r)
    case (Inl x)
    with fields cmds_clean [of e tp w'] show ?thesis
      by (cases "clean_temp_files e tp w'") (auto simp: process_video_def split: sum.splits)
  next
    case (Inr out)
    with fields show ?thesis by (simp add: process_video_def)
  qed
qed



lemma download_loop_paths:
  assumes "\<forall>url\<in>set urls. \<exists>streams s. youtube e url = Inr streams \<and>
             select_stream streams = Some s \<and> yt_fetch e url s = Done"
    and "inj (tmp_name e)"
    and "\<forall>k\<ge>tmp_count w. tmp_fault e k = None \<and> files w (tmp_root e @ [tmp_name e k]) = None"
  shows "\<exists>vids tp' w'. download_loop e urls vs tp w = (Inr (), vs @ vids, tp', w') \<and>
           length vids = length urls \<and> cmds w' = cmds w \<and>
           (\<forall>i<length urls. \<exists>streams s. youtube e (urls ! i) = Inr streams \<and>
              select_stream streams = Some s \<and>
              vids ! i = tmp_root e @ [tmp_name e (tmp_count w + i), yt_name e (urls ! i) s])"
  using assms(1,3)
proof (induction urls arbitrary: vs tp w)
  case Nil
  then show ?case by simp
next
  case (Cons url urls)
  let ?k = "tmp_count w"
  let ?d = "tmp_root e @ [tmp_name e ?k]"
  from Cons.prems(1) obtain streams s where
    y: "youtube e url = Inr streams" "select_stream streams = Some s" "yt_fetch e url s = Done"
    by auto
  let ?v = "tmp_root e @ [tmp_name e ?k, yt_name e url s]"
  let ?w1 = "w\<lparr>tmp_count := Suc ?k, files := (files w)(?d \<mapsto> Dir, ?v \<mapsto> Media)\<rparr>"
  from Cons.prems(2) have k: "tmp_fault e ?k = None" "files w ?d = None"
    by auto
  have d: "download_youtube_video e url w = (Inr (?v, ?d), ?w1)"
    using download_ok [OF y k] .
  have inv: "\<forall>k\<ge>tmp_count ?w1. tmp_fault e k = None \<and> files ?w1 (tmp_root e @ [tmp_name e k]) = None"
  proof (intro allI impI)
    fix k assume "tmp_count ?w1 \<le> k"
    then have "?k < k" by simp
    then have "tmp_name e k \<noteq> tmp_name e ?k"
      using assms(2) by (auto dest: injD)
    with Cons.prems(2) \<open>?k < k\<close> show "tmp_fault e k = None \<and> files ?w1 (tmp_root e @ [tmp_name e k]) = None"
      by simp
  qed
  from Cons.prems(1) have rest: "\<forall>url\<in>set urls. \<exists>streams s. youtube e url = Inr streams \<and>
             select_stream streams = Some s \<and> yt_fetch e url s = Done"
    by simp
  from Cons.IH [OF rest inv, of "vs @ [?v]" "tp @ [?v, ?d]"] obtain vids tp' w' where
    r: "download_loop e urls (vs @ [?v]) (tp @ [?v, ?d]) ?w1 = (Inr (), (vs @ [?v]) @ vids, tp', w')"
    and n: "length vids = length urls" and c: "cmds w' = cmds ?w1"
    and p: "\<forall>i<length urls. \<exists>streams s. youtube e (urls ! i) = Inr streams \<and>
              select_stream streams = Some s \<and>
              vids ! i = tmp_root e @ [tmp_name e (tmp_count ?w1 + i), yt_name e (urls ! i) s]"
    by blast
  have q: "\<forall>i<length (url # urls). \<exists>streams s. youtube e ((url # urls) ! i) = Inr streams \<and>
              select_stream streams = Some s \<and>
              (?v # vids) ! i = tmp_root e @ [tmp_name e (?k + i), yt_name e ((url # urls) ! i) s]"
  proof (intro allI impI)
    fix i assume i: "i < length (url # urls)"
    show "\<exists>streams s. youtube e ((url # urls) ! i) = Inr streams \<and>
              select_stream streams = Some s \<and>
              (?v # vids) ! i = tmp_root e @ [tmp_name e (?k + i), yt_name e ((url # urls) ! i) s]"
    proof (cases i)
      case 0
      with y show ?thesis by simp
    next
      case (Suc j)
      with i p show ?thesis by simp
    qed
  qed
  from d r n c q show ?case
    by (intro exI [of _ "?v # vids"] exI [of _ tp'] exI [of _ w']) simp
qed

lemma files_subprocess_run:
  "p \<noteq> out \<Longrightarrow> files (snd (subprocess_run e args out w)) p = files w p"
  by (simp add: subprocess_run_def write_result_def split: outcome.splits)

lemma subprocess_run_cases:
  "(ffmpeg e args = Done \<and> (\<exists>w'. subprocess_run e args out w = (Inr (), w'))) \<or>
   (ffmpeg e args \<noteq> Done \<and> (\<exists>x w'. subprocess_run e args out w = (Inl x, w')))"
  by (cases "ffmpeg e args") (simp_all add: subprocess_run_def write_result_def)

lemma combine_single: "combine_videos e wd [v] tp w = (Inr v, tp, w)"
  by (simp add: combine_videos_def)

lemma combine_many:
  assumes "length vs > 1" "open_fault e (wd @ [S ''concat.txt'']) = None"
  shows "combine_videos e wd vs tp w =
     (case subprocess_run e (concat_args (wd @ [S ''concat.txt'']) (wd @ [S ''combined.mp4'']))
             (wd @ [S ''combined.mp4''])
             ((print_line ([128260] @ S '' Combining videos...'') w)
                \<lparr>files := (files w)(wd @ [S ''concat.txt''] \<mapsto> Text (write_lines vs []))\<rparr>) of
        (Inl x, w3) \<Rightarrow> (Inl x, tp, w3)
      | (Inr u, w3) \<Rightarrow>
          (Inr (wd @ [S ''combined.mp4'']),
           tp @ [wd @ [S ''concat.txt''], wd @ [S ''combined.mp4'']], w3))"
  using assms
  by (simp add: combine_videos_def Let_def write_text_def os_path_join_def print_line_def)

lemma process_body_reaches_combine:
  assumes fetch: "\<forall>url\<in>set urls. \<exists>streams s. youtube e url = Inr streams \<and>
             select_stream streams = Some s \<and> yt_fetch e url s = Done"
    and inj: "inj (tmp_name e)"
    and tmp: "\<forall>k\<ge>tmp_count w. tmp_fault e k = None \<and> files w (tmp_root e @ [tmp_name e k]) = None"
    and tts: "gtts e story = Done"
    and stt: "whisper e (tmp_root e @ [tmp_name e (tmp_count w), S ''narration.mp3'']) = Inr segments"
  shows "\<exists>vids tp6 w6. length vids = length urls \<and> cmds w6 = cmds w \<and>
     (\<forall>i<length urls. \<exists>streams s. youtube e (urls ! i) = Inr streams \<and>
        select_stream streams = Some s \<and>
        vids ! i = tmp_root e @ [tmp_name e (Suc (tmp_count w + i)), yt_name e (urls ! i) s]) \<and>
     process_body e story urls w =
       (case combine_videos e (tmp_root e @ [tmp_name e (tmp_count w)]) vids tp6 w6 of
          (Inl x, tp7, w7) \<Rightarrow> (Inl x, tp7, w7)
        | (Inr iv, tp7, w7) \<Rightarrow>
            (case subprocess_run e
                    (mux_args iv (tmp_root e @ [tmp_name e (tmp_count w), S ''narration.mp3''])
                       (create_subtitle_filter (str_float e) segments)
                       (tmp_root e @ [tmp_name e (tmp_count w), S ''final_output.mp4'']))
                    (tmp_root e @ [tmp_name e (tmp_count w), S ''final_output.mp4''])
                    (print_line ([127916] @ S '' Creating final video...'') w7) of
               (Inl x, w9) \<Rightarrow> (Inl x, tp7, w9)
             | (Inr u, w9) \<Rightarrow>
                 (Inr (tmp_root e @ [tmp_name e (tmp_count w), S ''final_output.mp4'']), tp7, w9)))"
proof -
  let ?k = "tmp_count w"
  let ?wd = "tmp_root e @ [tmp_name e ?k]"
  let ?voice = "?wd @ [S ''narration.mp3'']"
  let ?w1 = "w\<lparr>tmp_count := Suc ?k, files := (files w)(?wd \<mapsto> Dir)\<rparr>"
  let ?w2 = "print_line ([127908] @ S '' Generating voice narration...'') ?w1"
  let ?w3 = "?w2\<lparr>files := (files ?w2)(?voice \<mapsto> Media)\<rparr>"
  let ?w4 = "print_line ([128221] @ S '' Creating transcript...'') ?w3"
  let ?w5 = "print_line ([128229] @ S '' Downloading videos...'') ?w4"
  from tmp have m: "mkdtemp e w = (Inr ?wd, ?w1)"
    by (simp add: mkdtemp_ok)
  have t: "write_result (gtts e story) ?voice ?w2 = (Inr (), ?w3)"
    by (simp add: write_result_def tts)
  have inv: "\<forall>k\<ge>tmp_count ?w5. tmp_fault e k = None \<and> files ?w5 (tmp_root e @ [tmp_name e k]) = None"
  proof (intro allI impI)
    fix k assume "tmp_count ?w5 \<le> k"
    then have "?k < k" by (simp add: print_line_def)
    then have "tmp_name e k \<noteq> tmp_name e ?k"
      using inj by (auto dest: injD)
    with tmp \<open>?k < k\<close> show "tmp_fault e k = None \<and> files ?w5 (tmp_root e @ [tmp_name e k]) = None"
      by (simp add: print_line_def)
  qed
  have k5: "tmp_count ?w5 = Suc ?k" "cmds ?w5 = cmds w"
    by (simp_all add: print_line_def)
  from download_loop_paths [OF fetch inj inv, of "[]" "[?wd, ?voice]"] obtain vids tp6 w6 where
    d: "download_loop e urls [] [?wd, ?voice] ?w5 = (Inr (), vids, tp6, w6)" and
    n: "length vids = length urls" and c: "cmds w6 = cmds w" and
    p: "\<forall>i<length urls. \<exists>streams s. youtube e (urls ! i) = Inr streams \<and>
        select_stream streams = Some s \<and>
        vids ! i = tmp_root e @ [tmp_name e (Suc (tmp_count w + i)), yt_name e (urls ! i) s]"
    unfolding k5 by auto
  have "process_body e story urls w =
       (case combine_videos e ?wd vids tp6 w6 of
          (Inl x, tp7, w7) \<Rightarrow> (Inl x, tp7, w7)
        | (Inr iv, tp7, w7) \<Rightarrow>
            (case subprocess_run e
                    (mux_args iv (tmp_root e @ [tmp_name e (tmp_count w), S ''narration.mp3''])
                       (create_subtitle_filter (str_float e) segments)
                       (tmp_root e @ [tmp_name e (tmp_count w), S ''final_output.mp4'']))
                    (tmp_root e @ [tmp_name e (tmp_count w), S ''final_output.mp4''])
                    (print_line ([127916] @ S '' Creating final video...'') w7) of
               (Inl x, w9) \<Rightarrow> (Inl x, tp7, w9)
             | (Inr u, w9) \<Rightarrow>
                 (Inr (tmp_root e @ [tmp_name e (tmp_count w), S ''final_output.mp4'']), tp7, w9)))"
    using m t stt d
    by (simp add: process_body_def Let_def os_path_join_def
        cong: prod.case_cong sum.case_cong)
  with n c p show ?thesis
    by (rule_tac x = vids in exI, rule_tac x = tp6 in exI, rule_tac x = w6 in exI) blast
qed

lemma snd_snd_case_triple:
  "snd (snd (case r of (Inl x, w') \<Rightarrow> (Inl x, tp, w') | (Inr u, w') \<Rightarrow> (Inr a, tp', w'))) = snd r"
  by (cases r) (auto split: sum.splits)

text \<open>No step of the pipeline but the cleanup consults the removal faults.\<close>

lemma mkdtemp_rm_fault [simp]: "mkdtemp (e\<lparr>rm_fault := f\<rparr>) w = mkdtemp e w"
  by (simp add: mkdtemp_def)

lemma stream_download_rm_fault [simp]:
  "stream_download (e\<lparr>rm_fault := f\<rparr>) url stream d w = stream_download e url stream d w"
  by (simp add: stream_download_def)

lemma subprocess_run_rm_fault [simp]:
  "subprocess_run (e\<lparr>rm_fault := f\<rparr>) args out w = subprocess_run e args out w"
  by (simp add: subprocess_run_def)

lemma write_text_rm_fault [simp]:
  "write_text (e\<lparr>rm_fault := f\<rparr>) p content w = write_text e p content w"
  by (simp add: write_text_def)

lemma download_rm_fault [simp]:
  "download_youtube_video (e\<lparr>rm_fault := f\<rparr>) url w = download_youtube_video e url w"
  by (simp add: download_youtube_video_def
      cong: sum.case_cong option.case_cong prod.case_cong)

lemma download_loop_rm_fault [simp]:
  "download_loop (e\<lparr>rm_fault := f\<rparr>) urls vs tp w = download_loop e urls vs tp w"
  by (induction urls arbitrary: vs tp w)
     (simp_all cong: sum.case_cong prod.case_cong)

lemma combine_rm_fault [simp]:
  "combine_videos (e\<lparr>rm_fault := f\<rparr>) wd vs tp w = combine_videos e wd vs tp w"
  by (simp add: combine_videos_def Let_def cong: sum.case_cong prod.case_cong)

lemma process_body_rm_fault [simp]:
  "process_body (e\<lparr>rm_fault := f\<rparr>) story urls w = process_body e story urls w"
  by (simp add: process_body_def Let_def cong: sum.case_cong prod.case_cong)

lemma process_video_fst:
  "fst (process_video e story urls w) =
     (case process_body e story urls w of
        (Inr out, tp, w') \<Rightarrow> Inr (out, tp)
      | (Inl x, tp, w') \<Rightarrow> Inl (Exception (S ''Video processing failed: '' @ str x)))"
proof (cases "process_body e story urls w")
  case (fields r tp w')
  show ?thesis
  proof (cases r)
    case (Inl x)
    with fields clean_never_raises [of e tp w'] show ?thesis
      by (auto simp: process_video_def split: prod.splits sum.splits)
  next
    case (Inr out)
    with fields show ?thesis by (simp add: process_video_def)
  qed
qed

lemma process_video_Inr:
  "fst (process_video e story urls w) = Inr (out, tp) \<Longrightarrow>
   process_body e story urls w = (Inr out, tp, snd (process_video e story urls w))"
  by (cases "process_body e story urls w")
     (auto simp: process_video_def split: prod.splits sum.splits)

lemma process_video_rm_fault:
  "fst (process_video (e\<lparr>rm_fault := f\<rparr>) story urls w) = fst (process_video e story urls w)"
  by (simp add: process_video_fst)

lemma generate_video_fst:
  "fst (generate_video e req w) =
     (let story = (case prompt req of None \<Rightarrow> [] | Some t \<Rightarrow> t);
          youtube_links = (case links req of None \<Rightarrow> [] | Some ls \<Rightarrow> ls)
      in if story = [] \<or> youtube_links = [] then JsonError (S ''Missing prompt or video links'') 400
         else if length youtube_links > 10 then JsonError (S ''Maximum 10 videos allowed'') 400
         else (case process_body e story youtube_links w of
                 (Inl x, tp, w1) \<Rightarrow> JsonError (S ''Video processing failed: '' @ str x) 500
               | (Inr out, tp, w1) \<Rightarrow>
                   (case send_file w1 out (S ''video/mp4'') (S ''generated_video.mp4'') of
                      Inl x \<Rightarrow> JsonError (str x) 500
                    | Inr resp \<Rightarrow> resp)))"
proof -
  let ?story = "case prompt req of None \<Rightarrow> [] | Some t \<Rightarrow> t"
  let ?links = "case links req of None \<Rightarrow> [] | Some ls \<Rightarrow> ls"
  show ?thesis
  proof (cases "process_body e ?story ?links w")
    case (fields r tp w1)
    show ?thesis
    proof (cases r)
      case (Inl x)
      with fields process_video_fst [of e ?story ?links w] show ?thesis
        by (auto simp: generate_video_def Let_def split: prod.splits sum.splits)
    next
      case (Inr out)
      with fields have "process_video e ?story ?links w = (Inr (out, tp), w1)"
        by (simp add: process_video_def)
      with fields Inr clean_never_raises [of e tp w1] show ?thesis
        by (auto simp: generate_video_def Let_def split: prod.splits sum.splits)
    qed
  qed
qed

lemma generate_video_rm_fault:
  "fst (generate_video (e\<lparr>rm_fault := f\<rparr>) req w) = fst (generate_video e req w)"
  by (simp add: generate_video_fst Let_def cong: if_cong)

lemma clean_logs:
  "files w p \<noteq> None \<Longrightarrow> rm_fault e p = Some m \<Longrightarrow>
   clean_temp_files e (p # ps) w =
     clean_temp_files e ps (print_line (S ''Error cleaning up '' @ path_str p @ S '': '' @ m) w)"
  by (auto simp: remove_path_def isdir_def exists_def rmtree_def os_remove_def)

section \<open>Evaluation at concrete inputs\<close>

lemmas eval_defs = process_video_def process_body_def mkdtemp_def write_result_def
  subprocess_run_def write_text_def download_youtube_video_def stream_download_def
  select_stream_def first_def desc_def order_by_resolution_def filter_progressive_mp4_def
  filter_progressive_mp4_res_def combine_videos_def os_path_join_def print_line_def
  remove_path_def isdir_def exists_def rmtree_def os_remove_def download_failed_def
  stream_360p_def stream_720p_def stream_1080p_def Let_def

lemmas clean_eval = remove_path_def isdir_def exists_def rmtree_def os_remove_def
  print_line_def path_str_def

lemma list2: "length xs = 2 \<Longrightarrow> xs = [xs ! 0, xs ! 1]"
  by (cases xs; cases "tl xs") auto

lemma ex_conj4E:
  "\<exists>x. A x \<and> B x \<and> C x \<and> D x \<Longrightarrow> (\<And>x. A x \<Longrightarrow> B x \<Longrightarrow> C x \<Longrightarrow> D x \<Longrightarrow> R) \<Longrightarrow> R"
  by blast

lemma ok_select: "select_stream [stream_360p, stream_720p] = Some stream_720p"
  by (simp add: select_stream_def first_def filter_progressive_mp4_res_def
      stream_360p_def stream_720p_def)

lemma ok_run_one:
  "fst (process_video ok_env (S ''Hello world'') [S ''urlA''] world0) =
     Inr ([S ''tmp'', S ''t'', S ''final_output.mp4''],
          [[S ''tmp'', S ''t''], [S ''tmp'', S ''t'', S ''narration.mp3''],
           [S ''tmp'', S ''tt'', S ''urlA.mp4''], [S ''tmp'', S ''tt'']])"
  by (simp add: eval_defs ok_env_def world0_def S_def)

section \<open>The claims\<close>

text \<open>
  Claim C1. After \<open>process_video\<close> raises, no path created for the job should remain.
  The code does not achieve this when a download fails: \<open>download_youtube_video\<close>
  creates its scratch directory with \<open>mkdtemp\<close> and only returns it, for registration in
  \<open>temp_paths\<close>, when \<open>stream.download\<close> succeeds. With two URLs of which the second
  download fails, the job raises, the workspace \<open>/tmp/t\<close> and the first scratch
  directory \<open>/tmp/tt\<close> are removed, and the second scratch directory \<open>/tmp/ttt\<close>,
  which did not exist before the job, is still there.
\<close>

theorem failed_download_leaks_scratch_dir:
  "fst (process_video fetch_fail_env (S ''Test'') [S ''urlA'', S ''urlB''] world0) =
     Inl (Exception (S ''Video processing failed: YouTube download failed: HTTP Error 403: Forbidden'')) \<and>
   files world0 [S ''tmp'', S ''ttt''] = None \<and>
   files (snd (process_video fetch_fail_env (S ''Test'') [S ''urlA'', S ''urlB''] world0))
     [S ''tmp'', S ''ttt''] = Some Dir \<and>
   files (snd (process_video fetch_fail_env (S ''Test'') [S ''urlA'', S ''urlB''] world0))
     [S ''tmp'', S ''tt''] = None \<and>
   files (snd (process_video fetch_fail_env (S ''Test'') [S ''urlA'', S ''urlB''] world0))
     [S ''tmp'', S ''t''] = None"
  by (simp add: eval_defs fetch_fail_env_def ok_env_def world0_def S_def)

text \<open>
  Claim C2. The fetch should never select a stream above 720p. The code's fallback, taken
  when no 720p stream exists, is the highest resolution among all progressive MP4
  streams, with no ceiling: from a 1080p and a 360p stream it selects the 1080p one.
\<close>

theorem select_stream_exceeds_ceiling:
  "select_stream [stream_1080p, stream_360p] = Some stream_1080p \<and>
   resolution stream_1080p = Some 1080"
  by (simp add: select_stream_def first_def desc_def order_by_resolution_def
      filter_progressive_mp4_def filter_progressive_mp4_res_def
      stream_1080p_def stream_360p_def)

text \<open>
  Claim C3, as stated, at a request with an empty prompt and eleven links: the request is
  over the limit, and the message is the one for a missing prompt, not the one for the
  maximum number of videos.
\<close>

theorem over_limit_empty_prompt_message:
  "length (replicate 11 (S ''urlA'')) > 10 \<and>
   fst (generate_video ok_env \<lparr>prompt = Some [], links = Some (replicate 11 (S ''urlA''))\<rparr> world0) =
     JsonError (S ''Missing prompt or video links'') 400 \<and>
   fst (generate_video ok_env \<lparr>prompt = Some [], links = Some (replicate 11 (S ''urlA''))\<rparr> world0) \<noteq>
     JsonError (S ''Maximum 10 videos allowed'') 400"
  by (simp add: generate_video_def)

text \<open>
  Claim C3, amended. For every request whose prompt is empty or missing, or whose link
  list is missing, empty or longer than 10, \<open>generate_video\<close> answers with status 400 and
  leaves the world as it was: no directory or file is created, no command run, nothing
  printed. The message is \<open>Maximum 10 videos allowed\<close> when the prompt is non-empty and the
  links are more than 10, and \<open>Missing prompt or video links\<close> otherwise.
\<close>

theorem invalid_request_rejected:
  assumes "prompt req = None \<or> prompt req = Some [] \<or> links req = None \<or> links req = Some [] \<or>
     (\<exists>ls. links req = Some ls \<and> length ls > 10)"
  shows "generate_video e req w =
     (JsonError (if prompt req = None \<or> prompt req = Some [] \<or> links req = None \<or> links req = Some []
                 then S ''Missing prompt or video links'' else S ''Maximum 10 videos allowed'') 400, w)"
  using assms by (auto simp: generate_video_def Let_def split: option.splits)

theorem invalid_request_rejected_witness:
  "length (replicate 11 (S ''urlA'')) > 10 \<and>
   generate_video ok_env \<lparr>prompt = Some (S ''Test''), links = Some (replicate 11 (S ''urlA''))\<rparr> world0 =
     (JsonError (S ''Maximum 10 videos allowed'') 400, world0) \<and>
   generate_video ok_env \<lparr>prompt = None, links = Some [S ''urlA'']\<rparr> world0 =
     (JsonError (S ''Missing prompt or video links'') 400, world0) \<and>
   generate_video ok_env \<lparr>prompt = Some (S ''Test''), links = Some []\<rparr> world0 =
     (JsonError (S ''Missing prompt or video links'') 400, world0)"
  using invalid_request_rejected [of "\<lparr>prompt = Some (S ''Test''), links = Some (replicate 11 (S ''urlA''))\<rparr>" ok_env world0]
    invalid_request_rejected [of "\<lparr>prompt = None, links = Some [S ''urlA'']\<rparr>" ok_env world0]
    invalid_request_rejected [of "\<lparr>prompt = Some (S ''Test''), links = Some []\<rparr>" ok_env world0]
  by (simp add: S_def)

text \<open>
  Claim C4. For every job whose narration, transcription and fetches succeed and whose
  list file can be opened for writing, with N URLs: the N fetched files are the downloads of the URLs in URL order, each in its own
  scratch directory. With N = 1 no concat command is run: the only command is the final
  encoder run, whose first input is the fetched file. With N > 1 the list file
  \<open>concat.txt\<close> holds one line \<open>file '<path>'\<close> per fetched file in URL order, the
  command \<open>ffmpeg -f concat -safe 0 -i concat.txt -c copy combined.mp4\<close> is run, and the
  final encoder run follows, with \<open>combined.mp4\<close> as its first input, exactly when the
  concat command succeeded. Nothing is assumed about the outcome of either command.
\<close>

theorem concat_follows_url_order:
  fixes e :: env and w :: world
  defines "wd \<equiv> tmp_root e @ [tmp_name e (tmp_count w)]"
  defines "concat_cmd \<equiv>
     [S ''ffmpeg'', S ''-f'', S ''concat'', S ''-safe'', S ''0'',
      S ''-i'', path_str (wd @ [S ''concat.txt'']),
      S ''-c'', S ''copy'', path_str (wd @ [S ''combined.mp4''])]"
  defines "mux_cmd \<equiv> \<lambda>input_video segments.
     [S ''ffmpeg'', S ''-y'',
      S ''-i'', path_str input_video,
      S ''-i'', path_str (wd @ [S ''narration.mp3'']),
      S ''-vf'', create_subtitle_filter (str_float e) segments,
      S ''-map'', S ''0:v'', S ''-map'', S ''1:a'',
      S ''-c:v'', S ''libx264'', S ''-preset'', S ''fast'', S ''-crf'', S ''23'',
      S ''-c:a'', S ''aac'', S ''-shortest'', path_str (wd @ [S ''final_output.mp4''])]"
  assumes fetch: "\<forall>url\<in>set urls. \<exists>streams s. youtube e url = Inr streams \<and>
             select_stream streams = Some s \<and> yt_fetch e url s = Done"
    and inj: "inj (tmp_name e)"
    and tmp: "\<forall>k\<ge>tmp_count w. tmp_fault e k = None \<and> files w (tmp_root e @ [tmp_name e k]) = None"
    and tts: "gtts e story = Done"
    and stt: "whisper e (wd @ [S ''narration.mp3'']) = Inr segments"
    and opn: "open_fault e (wd @ [S ''concat.txt'']) = None"
  shows "\<exists>vids. length vids = length urls \<and>
     (\<forall>i<length urls. \<exists>streams s. youtube e (urls ! i) = Inr streams \<and>
        select_stream streams = Some s \<and>
        vids ! i = tmp_root e @ [tmp_name e (Suc (tmp_count w + i)), yt_name e (urls ! i) s]) \<and>
     (length urls = 1 \<longrightarrow>
        cmds (snd (process_video e story urls w)) = cmds w @ [mux_cmd (vids ! 0) segments]) \<and>
     (length urls > 1 \<longrightarrow>
        files (snd (snd (process_body e story urls w))) (wd @ [S ''concat.txt'']) =
          Some (Text (concat (map (\<lambda>video. S ''file '' @ [39] @ path_str video @ [39, 10]) vids))) \<and>
        cmds (snd (process_video e story urls w)) =
          cmds w @ [concat_cmd] @
          (if ffmpeg e concat_cmd = Done then [mux_cmd (wd @ [S ''combined.mp4'']) segments] else []))"
proof -
  let ?voice = "tmp_root e @ [tmp_name e (tmp_count w), S ''narration.mp3'']"
  let ?out = "tmp_root e @ [tmp_name e (tmp_count w), S ''final_output.mp4'']"
  let ?cl = "wd @ [S ''concat.txt'']"
  let ?cv = "wd @ [S ''combined.mp4'']"
  let ?filt = "create_subtitle_filter (str_float e) segments"
  have cc: "concat_cmd = concat_args ?cl ?cv"
    by (simp add: concat_cmd_def concat_args_def)
  have mc: "mux_cmd iv segments = mux_args iv ?voice ?filt ?out" for iv
    by (simp add: mux_cmd_def mux_args_def wd_def)
  from stt have stt': "whisper e ?voice = Inr segments"
    by (simp add: wd_def)
  from process_body_reaches_combine [OF fetch inj tmp tts stt']
  obtain vids tp6 w6 where
    n: "length vids = length urls" and c6: "cmds w6 = cmds w" and
    p: "\<forall>i<length urls. \<exists>streams s. youtube e (urls ! i) = Inr streams \<and>
        select_stream streams = Some s \<and>
        vids ! i = tmp_root e @ [tmp_name e (Suc (tmp_count w + i)), yt_name e (urls ! i) s]" and
    b: "process_body e story urls w =
       (case combine_videos e wd vids tp6 w6 of
          (Inl x, tp7, w7) \<Rightarrow> (Inl x, tp7, w7)
        | (Inr iv, tp7, w7) \<Rightarrow>
            (case subprocess_run e (mux_args iv ?voice ?filt ?out) ?out
                    (print_line ([127916] @ S '' Creating final video...'') w7) of
               (Inl x, w9) \<Rightarrow> (Inl x, tp7, w9)
             | (Inr u, w9) \<Rightarrow> (Inr ?out, tp7, w9)))"
    unfolding wd_def by blast
  have one: "cmds (snd (process_video e story urls w)) = cmds w @ [mux_cmd (vids ! 0) segments]"
    if "length urls = 1"
  proof -
    from that n obtain v where v: "vids = [v]"
      by (cases vids) auto
    have "snd (snd (process_body e story urls w)) =
        snd (subprocess_run e (mux_args v ?voice ?filt ?out) ?out
               (print_line ([127916] @ S '' Creating final video...'') w6))"
      unfolding b v combine_single by (simp add: snd_snd_case_triple)
    then show ?thesis
      by (simp add: cmds_process_video cmds_subprocess_run print_line_def c6 mc v)
  qed
  have many: "files (snd (snd (process_body e story urls w))) ?cl =
          Some (Text (concat (map (\<lambda>video. S ''file '' @ [39] @ path_str video @ [39, 10]) vids))) \<and>
        cmds (snd (process_video e story urls w)) =
          cmds w @ [concat_cmd] @
          (if ffmpeg e concat_cmd = Done then [mux_cmd ?cv segments] else [])"
    if "length urls > 1"
  proof -
    from that n have l: "length vids > 1" by simp
    let ?w2 = "(print_line ([128260] @ S '' Combining videos...'') w6)
                \<lparr>files := (files w6)(?cl \<mapsto> Text (write_lines vids []))\<rparr>"
    let ?run = "subprocess_run e (concat_args ?cl ?cv) ?cv ?w2"
    have cm: "combine_videos e wd vids tp6 w6 =
       (case ?run of
          (Inl x, w3) \<Rightarrow> (Inl x, tp6, w3)
        | (Inr u, w3) \<Rightarrow> (Inr ?cv, tp6 @ [?cl, ?cv], w3))"
      using combine_many [OF l opn] .
    have f3: "files (snd ?run) ?cl = Some (Text (write_lines vids []))"
      by (simp add: files_subprocess_run)
    have c3: "cmds (snd ?run) = cmds w @ [concat_cmd]"
      by (simp add: cmds_subprocess_run print_line_def c6 cc)
    from subprocess_run_cases [of e "concat_args ?cl ?cv" ?cv ?w2] show ?thesis
    proof (elim disjE conjE exE)
      fix w3 assume d: "ffmpeg e (concat_args ?cl ?cv) = Done" and r: "?run = (Inr (), w3)"
      let ?mux = "subprocess_run e (mux_args ?cv ?voice ?filt ?out) ?out
               (print_line ([127916] @ S '' Creating final video...'') w3)"
      from f3 have f3': "files w3 ?cl = Some (Text (write_lines vids []))"
        unfolding r by simp
      from c3 have c3': "cmds w3 = cmds w @ [concat_cmd]"
        unfolding r by simp
      have "snd (snd (process_body e story urls w)) = snd ?mux"
        unfolding b cm r by (simp add: snd_snd_case_triple)
      moreover have "files (snd ?mux) ?cl = Some (Text (write_lines vids []))"
        using f3' by (simp add: files_subprocess_run wd_def)
      moreover have "cmds (snd ?mux) = cmds w @ [concat_cmd, mux_cmd ?cv segments]"
        using c3' by (simp add: cmds_subprocess_run print_line_def mc)
      ultimately show ?thesis
        using d by (simp add: cmds_process_video write_lines_eq cc)
    next
      fix x w3 assume d: "ffmpeg e (concat_args ?cl ?cv) \<noteq> Done" and r: "?run = (Inl x, w3)"
      from f3 have f3': "files w3 ?cl = Some (Text (write_lines vids []))"
        unfolding r by simp
      from c3 have c3': "cmds w3 = cmds w @ [concat_cmd]"
        unfolding r by simp
      have "snd (snd (process_body e story urls w)) = w3"
        unfolding b cm r by simp
      with f3' c3' d show ?thesis
        by (simp add: cmds_process_video write_lines_eq cc)
    qed
  qed
  from n p one many show ?thesis by blast
qed

text \<open>
  Two URLs: the list file names the download of \<open>urlA\<close>, then that of \<open>urlB\<close>, and
  the two commands are run. One URL: the only command takes the download itself.
\<close>

theorem concat_follows_url_order_witness:
  "files (snd (snd (process_body ok_env (S ''Hello world'') [S ''urlA'', S ''urlB''] world0)))
       [S ''tmp'', S ''t'', S ''concat.txt''] =
     Some (Text (S ''file '' @ [39] @ S ''/tmp/tt/urlA.mp4'' @ [39, 10] @
                 S ''file '' @ [39] @ S ''/tmp/ttt/urlB.mp4'' @ [39, 10])) \<and>
   cmds (snd (process_video ok_env (S ''Hello world'') [S ''urlA'', S ''urlB''] world0)) =
     [[S ''ffmpeg'', S ''-f'', S ''concat'', S ''-safe'', S ''0'',
       S ''-i'', S ''/tmp/t/concat.txt'', S ''-c'', S ''copy'', S ''/tmp/t/combined.mp4''],
      [S ''ffmpeg'', S ''-y'', S ''-i'', S ''/tmp/t/combined.mp4'',
       S ''-i'', S ''/tmp/t/narration.mp3'',
       S ''-vf'', create_subtitle_filter (str_float ok_env)
          [\<lparr>words = Some [\<lparr>word = S ''Hello'', start = 0, end_time = 1 / 2\<rparr>]\<rparr>],
       S ''-map'', S ''0:v'', S ''-map'', S ''1:a'',
       S ''-c:v'', S ''libx264'', S ''-preset'', S ''fast'', S ''-crf'', S ''23'',
       S ''-c:a'', S ''aac'', S ''-shortest'', S ''/tmp/t/final_output.mp4'']] \<and>
   cmds (snd (process_video ok_env (S ''Hello world'') [S ''urlA''] world0)) =
     [[S ''ffmpeg'', S ''-y'', S ''-i'', S ''/tmp/tt/urlA.mp4'',
       S ''-i'', S ''/tmp/t/narration.mp3'',
       S ''-vf'', create_subtitle_filter (str_float ok_env)
          [\<lparr>words = Some [\<lparr>word = S ''Hello'', start = 0, end_time = 1 / 2\<rparr>]\<rparr>],
       S ''-map'', S ''0:v'', S ''-map'', S ''1:a'',
       S ''-c:v'', S ''libx264'', S ''-preset'', S ''fast'', S ''-crf'', S ''23'',
       S ''-c:a'', S ''aac'', S ''-shortest'', S ''/tmp/t/final_output.mp4'']]"
proof -
  let ?segs = "[\<lparr>words = Some [\<lparr>word = S ''Hello'', start = 0, end_time = 1 / 2\<rparr>]\<rparr>]"
  have fetch: "\<forall>url\<in>set urls. \<exists>streams s. youtube ok_env url = Inr streams \<and>
      select_stream streams = Some s \<and> yt_fetch ok_env url s = Done" for urls
    by (simp add: ok_env_def ok_select)
  have inj: "inj (tmp_name ok_env)"
    by (rule injI) (simp add: ok_env_def)
  have tmp: "\<forall>k\<ge>tmp_count world0. tmp_fault ok_env k = None \<and>
      files world0 (tmp_root ok_env @ [tmp_name ok_env k]) = None"
    by (simp add: ok_env_def world0_def)
  have tts: "gtts ok_env (S ''Hello world'') = Done"
    by (simp add: ok_env_def)
  have stt: "whisper ok_env
      ((tmp_root ok_env @ [tmp_name ok_env (tmp_count world0)]) @ [S ''narration.mp3'']) = Inr ?segs"
    by (simp add: ok_env_def)
  have opn: "open_fault ok_env p = None" for p
    by (simp add: ok_env_def)
  have enc: "ffmpeg ok_env args = Done" for args
    by (simp add: ok_env_def)
  have t: "tmp_root ok_env @ [tmp_name ok_env (tmp_count world0)] = [S ''tmp'', S ''t'']"
    "tmp_root ok_env @ [tmp_name ok_env (Suc (tmp_count world0 + 0)), x] = [S ''tmp'', S ''tt'', x]"
    "tmp_root ok_env @ [tmp_name ok_env (Suc (tmp_count world0 + 1)), x] = [S ''tmp'', S ''ttt'', x]" for x
    by (simp_all add: ok_env_def world0_def S_def)
  have y: "youtube ok_env url = Inr streams \<and> select_stream streams = Some s \<longleftrightarrow>
      streams = [stream_360p, stream_720p] \<and> s = stream_720p" for url streams s
    by (auto simp: ok_env_def ok_select)
  have n: "yt_name ok_env url s = url @ S ''.mp4''" for url s
    by (simp add: ok_env_def)
  have ps: "path_str [S ''tmp'', S ''t'', S ''concat.txt''] = S ''/tmp/t/concat.txt''"
    "path_str [S ''tmp'', S ''t'', S ''combined.mp4''] = S ''/tmp/t/combined.mp4''"
    "path_str [S ''tmp'', S ''t'', S ''narration.mp3''] = S ''/tmp/t/narration.mp3''"
    "path_str [S ''tmp'', S ''t'', S ''final_output.mp4''] = S ''/tmp/t/final_output.mp4''"
    "path_str [S ''tmp'', S ''tt'', S ''urlA'' @ S ''.mp4''] = S ''/tmp/tt/urlA.mp4''"
    "path_str [S ''tmp'', S ''ttt'', S ''urlB'' @ S ''.mp4''] = S ''/tmp/ttt/urlB.mp4''"
    by (simp_all add: path_str_def S_def)
  have w0: "cmds world0 = []"
    by (simp add: world0_def)
  note r2 = concat_follows_url_order [OF fetch inj tmp tts stt opn, of "[S ''urlA'', S ''urlB'']",
      unfolded t enc refl [THEN eqTrueI] if_True]
  have two: "files (snd (snd (process_body ok_env (S ''Hello world'') [S ''urlA'', S ''urlB''] world0)))
       [S ''tmp'', S ''t'', S ''concat.txt''] =
     Some (Text (S ''file '' @ [39] @ S ''/tmp/tt/urlA.mp4'' @ [39, 10] @
                 S ''file '' @ [39] @ S ''/tmp/ttt/urlB.mp4'' @ [39, 10])) \<and>
   cmds (snd (process_video ok_env (S ''Hello world'') [S ''urlA'', S ''urlB''] world0)) =
     [[S ''ffmpeg'', S ''-f'', S ''concat'', S ''-safe'', S ''0'',
       S ''-i'', S ''/tmp/t/concat.txt'', S ''-c'', S ''copy'', S ''/tmp/t/combined.mp4''],
      [S ''ffmpeg'', S ''-y'', S ''-i'', S ''/tmp/t/combined.mp4'',
       S ''-i'', S ''/tmp/t/narration.mp3'',
       S ''-vf'', create_subtitle_filter (str_float ok_env) ?segs,
       S ''-map'', S ''0:v'', S ''-map'', S ''1:a'',
       S ''-c:v'', S ''libx264'', S ''-preset'', S ''fast'', S ''-crf'', S ''23'',
       S ''-c:a'', S ''aac'', S ''-shortest'', S ''/tmp/t/final_output.mp4'']]"
    (is ?two)
  proof (rule ex_conj4E [OF r2])
    fix vids
    assume l: "length vids = length [S ''urlA'', S ''urlB'']"
      and i: "\<forall>i<length [S ''urlA'', S ''urlB'']. \<exists>streams s.
        youtube ok_env ([S ''urlA'', S ''urlB''] ! i) = Inr streams \<and>
        select_stream streams = Some s \<and>
        vids ! i = tmp_root ok_env @ [tmp_name ok_env (Suc (tmp_count world0 + i)),
          yt_name ok_env ([S ''urlA'', S ''urlB''] ! i) s]"
      and m: "1 < length [S ''urlA'', S ''urlB''] \<longrightarrow>
        files (snd (snd (process_body ok_env (S ''Hello world'') [S ''urlA'', S ''urlB''] world0)))
          ([S ''tmp'', S ''t''] @ [S ''concat.txt'']) =
        Some (Text (concat (map (\<lambda>video. S ''file '' @ [39] @ path_str video @ [39, 10]) vids))) \<and>
        cmds (snd (process_video ok_env (S ''Hello world'') [S ''urlA'', S ''urlB''] world0)) =
          cmds world0 @
          [[S ''ffmpeg'', S ''-f'', S ''concat'', S ''-safe'', S ''0'',
            S ''-i'', path_str ([S ''tmp'', S ''t''] @ [S ''concat.txt'']),
            S ''-c'', S ''copy'', path_str ([S ''tmp'', S ''t''] @ [S ''combined.mp4''])]] @
          [[S ''ffmpeg'', S ''-y'', S ''-i'', path_str ([S ''tmp'', S ''t''] @ [S ''combined.mp4'']),
            S ''-i'', path_str ([S ''tmp'', S ''t''] @ [S ''narration.mp3'']),
            S ''-vf'', create_subtitle_filter (str_float ok_env) ?segs,
            S ''-map'', S ''0:v'', S ''-map'', S ''1:a'',
            S ''-c:v'', S ''libx264'', S ''-preset'', S ''fast'', S ''-crf'', S ''23'',
            S ''-c:a'', S ''aac'', S ''-shortest'',
            path_str ([S ''tmp'', S ''t''] @ [S ''final_output.mp4''])]]"
    from l have l': "length vids = 2"
      by simp
    from i [rule_format, of 0] have "vids ! 0 = [S ''tmp'', S ''tt'', S ''urlA'' @ S ''.mp4'']"
      using t(2) [of "S ''urlA'' @ S ''.mp4''"] by (auto simp: y n)
    moreover from i [rule_format, of 1] have "vids ! 1 = [S ''tmp'', S ''ttt'', S ''urlB'' @ S ''.mp4'']"
      using t(3) [of "S ''urlB'' @ S ''.mp4''"] by (auto simp: y n)
    ultimately have "vids ! 0 = [S ''tmp'', S ''tt'', S ''urlA'' @ S ''.mp4'']"
      "vids ! 1 = [S ''tmp'', S ''ttt'', S ''urlB'' @ S ''.mp4'']"
      by simp_all
    with list2 [OF l'] have v: "vids = [[S ''tmp'', S ''tt'', S ''urlA'' @ S ''.mp4''],
        [S ''tmp'', S ''ttt'', S ''urlB'' @ S ''.mp4'']]"
      by simp
    from m show ?two
      unfolding v w0 by (simp add: ps)
  qed
  note r1 = concat_follows_url_order [OF fetch inj tmp tts stt opn, of "[S ''urlA'']",
      unfolded t enc refl [THEN eqTrueI] if_True]
  have one: "cmds (snd (process_video ok_env (S ''Hello world'') [S ''urlA''] world0)) =
     [[S ''ffmpeg'', S ''-y'', S ''-i'', S ''/tmp/tt/urlA.mp4'',
       S ''-i'', S ''/tmp/t/narration.mp3'',
       S ''-vf'', create_subtitle_filter (str_float ok_env) ?segs,
       S ''-map'', S ''0:v'', S ''-map'', S ''1:a'',
       S ''-c:v'', S ''libx264'', S ''-preset'', S ''fast'', S ''-crf'', S ''23'',
       S ''-c:a'', S ''aac'', S ''-shortest'', S ''/tmp/t/final_output.mp4'']]"
    (is ?one)
  proof (rule ex_conj4E [OF r1])
    fix vids
    assume i: "\<forall>i<length [S ''urlA'']. \<exists>streams s.
        youtube ok_env ([S ''urlA''] ! i) = Inr streams \<and>
        select_stream streams = Some s \<and>
        vids ! i = tmp_root ok_env @ [tmp_name ok_env (Suc (tmp_count world0 + i)),
          yt_name ok_env ([S ''urlA''] ! i) s]"
      and m: "length [S ''urlA''] = 1 \<longrightarrow>
        cmds (snd (process_video ok_env (S ''Hello world'') [S ''urlA''] world0)) =
          cmds world0 @
          [[S ''ffmpeg'', S ''-y'', S ''-i'', path_str (vids ! 0),
            S ''-i'', path_str ([S ''tmp'', S ''t''] @ [S ''narration.mp3'']),
            S ''-vf'', create_subtitle_filter (str_float ok_env) ?segs,
            S ''-map'', S ''0:v'', S ''-map'', S ''1:a'',
            S ''-c:v'', S ''libx264'', S ''-preset'', S ''fast'', S ''-crf'', S ''23'',
            S ''-c:a'', S ''aac'', S ''-shortest'',
            path_str ([S ''tmp'', S ''t''] @ [S ''final_output.mp4''])]]"
    from i [rule_format, of 0] have v: "vids ! 0 = [S ''tmp'', S ''tt'', S ''urlA'' @ S ''.mp4'']"
      using t(2) [of "S ''urlA'' @ S ''.mp4''"] by (auto simp: y n)
    from m show ?one
      unfolding v w0 by (simp add: ps)
  qed
  from two have "?two" .
  then show ?thesis
    using one by (intro conjI) (erule conjunct1, erule conjunct2, assumption)
qed

text \<open>
  Claim C5. For every transcript, the list of overlay instructions the compiler builds
  holds exactly one \<open>drawtext\<close> directive per word of the transcript, in
  segment-then-word order: the directive of a word is the fixed styling around the word's
  text, reduced to the characters of the allow-set, and its two printed times. The length
  of the list is the total number of words, a segment without the key \<open>words\<close> counting
  for none. No word is dropped, whatever is left of its text. The string returned is
  these directives separated by commas.
\<close>

theorem overlay_one_per_word:
  "subtitle_filters fmt segments =
     map (\<lambda>word_info.
            S ''drawtext=font='' @ [39] @ S ''Arial'' @ [39] @ S '':text='' @ [39] @
            filter (\<lambda>c. c \<in> set (S ''abcdefghijklmnopqrstuvwxyzABCDEFGHIJKLMNOPQRSTUVWXYZ0123456789,.?! ''))
              (word word_info) @ [39] @
            S '':fontsize=60:fontcolor=white:bordercolor=black:borderw=2:x=(w-text_w)/2:y=(h-text_h)/2:enable='' @
            [39] @ S ''between(t,'' @ fmt (start word_info) @ S '','' @ fmt (end_time word_info) @ S '')'' @ [39])
       (concat (map (\<lambda>segment. case words segment of None \<Rightarrow> [] | Some ws \<Rightarrow> ws) segments)) \<and>
   length (subtitle_filters fmt segments) =
     sum_list (map (\<lambda>segment. case words segment of None \<Rightarrow> 0 | Some ws \<Rightarrow> length ws) segments) \<and>
   create_subtitle_filter fmt segments =
     (if subtitle_filters fmt segments = [] then []
      else concat (map (\<lambda>directive. directive @ S '','') (butlast (subtitle_filters fmt segments))) @
           last (subtitle_filters fmt segments))"
proof (intro conjI)
  show "subtitle_filters fmt segments =
     map (\<lambda>word_info.
            S ''drawtext=font='' @ [39] @ S ''Arial'' @ [39] @ S '':text='' @ [39] @
            filter (\<lambda>c. c \<in> set (S ''abcdefghijklmnopqrstuvwxyzABCDEFGHIJKLMNOPQRSTUVWXYZ0123456789,.?! ''))
              (word word_info) @ [39] @
            S '':fontsize=60:fontcolor=white:bordercolor=black:borderw=2:x=(w-text_w)/2:y=(h-text_h)/2:enable='' @
            [39] @ S ''between(t,'' @ fmt (start word_info) @ S '','' @ fmt (end_time word_info) @ S '')'' @ [39])
       (concat (map (\<lambda>segment. case words segment of None \<Rightarrow> [] | Some ws \<Rightarrow> ws) segments))"
    unfolding subtitle_filters_eq segment_words_eq
    by (rule map_cong) (simp_all only: filter_text_eq)
  have "length (subtitle_filters fmt segments) =
      sum_list (map (\<lambda>segment. length (segment_words segment)) segments)"
    by (simp add: subtitle_filters_eq length_concat comp_def)
  also have "\<dots> = sum_list (map (\<lambda>segment. case words segment of None \<Rightarrow> 0 | Some ws \<Rightarrow> length ws) segments)"
    by (rule arg_cong [where f = sum_list], rule map_cong)
       (simp_all add: segment_words_def split: option.splits)
  finally show "length (subtitle_filters fmt segments) =
     sum_list (map (\<lambda>segment. case words segment of None \<Rightarrow> 0 | Some ws \<Rightarrow> length ws) segments)" .
  show "create_subtitle_filter fmt segments =
     (if subtitle_filters fmt segments = [] then []
      else concat (map (\<lambda>directive. directive @ S '','') (butlast (subtitle_filters fmt segments))) @
           last (subtitle_filters fmt segments))"
    unfolding create_subtitle_filter_def by (rule join_eq)
qed

text \<open>
  A transcript of a segment with two words, the second of which sanitization empties, and
  a segment without words: two directives, the second with the text \<open>''\<close>.
\<close>

theorem overlay_one_per_word_witness:
  "subtitle_filters (\<lambda>t. S ''0.5'')
      [\<lparr>words = Some [\<lparr>word = S ''Hi!'', start = 0, end_time = 1\<rparr>,
                       \<lparr>word = S ''***'', start = 1, end_time = 2\<rparr>]\<rparr>,
       \<lparr>words = None\<rparr>] =
     [S ''drawtext=font='' @ [39] @ S ''Arial'' @ [39] @ S '':text='' @ [39] @ S ''Hi!'' @ [39] @
      S '':fontsize=60:fontcolor=white:bordercolor=black:borderw=2:x=(w-text_w)/2:y=(h-text_h)/2:enable='' @
      [39] @ S ''between(t,0.5,0.5)'' @ [39],
      S ''drawtext=font='' @ [39] @ S ''Arial'' @ [39] @ S '':text='' @ [39] @ [39] @
      S '':fontsize=60:fontcolor=white:bordercolor=black:borderw=2:x=(w-text_w)/2:y=(h-text_h)/2:enable='' @
      [39] @ S ''between(t,0.5,0.5)'' @ [39]] \<and>
   create_subtitle_filter (\<lambda>t. S ''0.5'')
      [\<lparr>words = Some [\<lparr>word = S ''Hi!'', start = 0, end_time = 1\<rparr>,
                       \<lparr>word = S ''***'', start = 1, end_time = 2\<rparr>]\<rparr>,
       \<lparr>words = None\<rparr>] =
     S ''drawtext=font='' @ [39] @ S ''Arial'' @ [39] @ S '':text='' @ [39] @ S ''Hi!'' @ [39] @
     S '':fontsize=60:fontcolor=white:bordercolor=black:borderw=2:x=(w-text_w)/2:y=(h-text_h)/2:enable='' @
     [39] @ S ''between(t,0.5,0.5)'' @ [39] @ S '','' @
     S ''drawtext=font='' @ [39] @ S ''Arial'' @ [39] @ S '':text='' @ [39] @ [39] @
     S '':fontsize=60:fontcolor=white:bordercolor=black:borderw=2:x=(w-text_w)/2:y=(h-text_h)/2:enable='' @
     [39] @ S ''between(t,0.5,0.5)'' @ [39]"
proof -
  let ?segs = "[\<lparr>words = Some [\<lparr>word = S ''Hi!'', start = 0, end_time = 1\<rparr>,
                       \<lparr>word = S ''***'', start = 1, end_time = 2\<rparr>]\<rparr>,
       \<lparr>words = None\<rparr>]"
  note r = overlay_one_per_word [of "\<lambda>t. S ''0.5''" ?segs]
  from r have a: "subtitle_filters (\<lambda>t. S ''0.5'') ?segs =
     [S ''drawtext=font='' @ [39] @ S ''Arial'' @ [39] @ S '':text='' @ [39] @ S ''Hi!'' @ [39] @
      S '':fontsize=60:fontcolor=white:bordercolor=black:borderw=2:x=(w-text_w)/2:y=(h-text_h)/2:enable='' @
      [39] @ S ''between(t,0.5,0.5)'' @ [39],
      S ''drawtext=font='' @ [39] @ S ''Arial'' @ [39] @ S '':text='' @ [39] @ [39] @
      S '':fontsize=60:fontcolor=white:bordercolor=black:borderw=2:x=(w-text_w)/2:y=(h-text_h)/2:enable='' @
      [39] @ S ''between(t,0.5,0.5)'' @ [39]]"
    by (simp add: fmt_word S_append [symmetric] del: append.assoc)
  from r have "create_subtitle_filter (\<lambda>t. S ''0.5'') ?segs =
      (if subtitle_filters (\<lambda>t. S ''0.5'') ?segs = [] then []
       else concat (map (\<lambda>directive. directive @ S '','')
              (butlast (subtitle_filters (\<lambda>t. S ''0.5'') ?segs))) @
            last (subtitle_filters (\<lambda>t. S ''0.5'') ?segs))"
    by (elim conjE)
  then show ?thesis
    unfolding a by (simp add: a)
qed

text \<open>
  Claim C6. For every input string, sanitizing twice is the same as sanitizing once, and
  every character of the sanitized string is one of the 67 characters of the allow-set
  \<open>[A-Za-z0-9,.?! ]\<close>.
\<close>

theorem clean_text_idempotent_allowed:
  "clean_text (clean_text x) = clean_text x \<and>
   set (clean_text x) \<subseteq>
     set (S ''abcdefghijklmnopqrstuvwxyzABCDEFGHIJKLMNOPQRSTUVWXYZ0123456789,.?! '')"
proof
  show "clean_text (clean_text x) = clean_text x"
    by (simp add: clean_text_def)
  show "set (clean_text x) \<subseteq>
      set (S ''abcdefghijklmnopqrstuvwxyzABCDEFGHIJKLMNOPQRSTUVWXYZ0123456789,.?! '')"
    unfolding clean_text_def using in_class_iff by auto
qed

text \<open>
  The empty string, a string with the non-ASCII code points U+00E9 and U+2019, and a
  string of punctuation outside the allow-set.
\<close>

theorem clean_text_idempotent_allowed_witness:
  "clean_text [] = [] \<and>
   clean_text (S ''caf'' @ [233, 8217] @ S ''s ok?'') = S ''cafs ok?'' \<and>
   clean_text (clean_text (S ''caf'' @ [233, 8217] @ S ''s ok?'')) = S ''cafs ok?'' \<and>
   clean_text (S '';:*#'') = []"
proof -
  have a: "clean_text (S ''caf'' @ [233, 8217] @ S ''s ok?'') = S ''cafs ok?''"
    by (simp add: clean_text_def in_class_def S_def)
  have b: "clean_text (S '';:*#'') = []" "clean_text [] = []"
    by (simp_all add: clean_text_def in_class_def S_def)
  show ?thesis
    using clean_text_idempotent_allowed [of "S ''caf'' @ [233, 8217] @ S ''s ok?''"] a b
    by simp
qed




text \<open>
  Claim C8. For every successful job, the last command run is the final encoder run with
  the fixed argument list: first input the video (the single fetched file, or the combined
  file when there are several URLs), second input the narration synthesized from the
  story text, the caption filter of the transcript, video mapped from input 0 and audio
  from input 1, \<open>libx264\<close> with preset \<open>fast\<close> and CRF 23, audio codec \<open>aac\<close>, the flag
  \<open>-shortest\<close>, and the output path that the job returns.
\<close>

theorem mux_contract:
  assumes "fst (process_video e story urls w) = Inr (out, tps)"
  shows "\<exists>input_video segments.
     last (cmds (snd (process_video e story urls w))) =
       [S ''ffmpeg'', S ''-y'',
        S ''-i'', path_str input_video,
        S ''-i'', path_str (tmp_root e @ [tmp_name e (tmp_count w), S ''narration.mp3'']),
        S ''-vf'', create_subtitle_filter (str_float e) segments,
        S ''-map'', S ''0:v'', S ''-map'', S ''1:a'',
        S ''-c:v'', S ''libx264'', S ''-preset'', S ''fast'', S ''-crf'', S ''23'',
        S ''-c:a'', S ''aac'', S ''-shortest'', path_str out] \<and>
     gtts e story = Done \<and>
     whisper e (tmp_root e @ [tmp_name e (tmp_count w), S ''narration.mp3'']) = Inr segments \<and>
     out = tmp_root e @ [tmp_name e (tmp_count w), S ''final_output.mp4''] \<and>
     (list_all2 (fetched_from e) urls [input_video] \<or>
      length urls > 1 \<and> input_video = tmp_root e @ [tmp_name e (tmp_count w), S ''combined.mp4''])"
proof -
  let ?wd = "tmp_root e @ [tmp_name e (tmp_count w)]"
  let ?w' = "snd (process_video e story urls w)"
  from process_body_Inr [OF process_video_Inr [OF assms]]
  obtain segments vids input_video where
    g: "gtts e story = Done" and s: "whisper e (?wd @ [S ''narration.mp3'']) = Inr segments" and
    l: "list_all2 (fetched_from e) urls vids" and o: "out = ?wd @ [S ''final_output.mp4'']" and
    d: "(\<exists>v. vids = [v] \<and> input_video = v \<and>
         cmds ?w' = cmds w @ [mux_args input_video (?wd @ [S ''narration.mp3''])
               (create_subtitle_filter (str_float e) segments) out]) \<or>
      (length vids > 1 \<and> input_video = ?wd @ [S ''combined.mp4''] \<and>
         cmds ?w' = cmds w @ [concat_args (?wd @ [S ''concat.txt'']) input_video,
             mux_args input_video (?wd @ [S ''narration.mp3''])
               (create_subtitle_filter (str_float e) segments) out] \<and>
         files ?w' (?wd @ [S ''concat.txt'']) = Some (Text (write_lines vids [])))"
    by blast
  from l have n: "length vids = length urls"
    by (simp add: list_all2_lengthD)
  from d have c: "last (cmds ?w') = mux_args input_video (?wd @ [S ''narration.mp3''])
               (create_subtitle_filter (str_float e) segments) out"
    by auto
  from d l n have i: "list_all2 (fetched_from e) urls [input_video] \<or>
      length urls > 1 \<and> input_video = ?wd @ [S ''combined.mp4'']"
    by auto
  from c g s o i show ?thesis
    unfolding mux_args_def by (intro exI [of _ input_video] exI [of _ segments]) simp
qed

theorem mux_contract_witness:
  "fst (process_video ok_env (S ''Hello world'') [S ''urlA''] world0) =
     Inr ([S ''tmp'', S ''t'', S ''final_output.mp4''],
          [[S ''tmp'', S ''t''], [S ''tmp'', S ''t'', S ''narration.mp3''],
           [S ''tmp'', S ''tt'', S ''urlA.mp4''], [S ''tmp'', S ''tt'']]) \<and>
   (\<exists>input_video segments.
      last (cmds (snd (process_video ok_env (S ''Hello world'') [S ''urlA''] world0))) =
        [S ''ffmpeg'', S ''-y'',
         S ''-i'', path_str input_video,
         S ''-i'', S ''/tmp/t/narration.mp3'',
         S ''-vf'', create_subtitle_filter (str_float ok_env) segments,
         S ''-map'', S ''0:v'', S ''-map'', S ''1:a'',
         S ''-c:v'', S ''libx264'', S ''-preset'', S ''fast'', S ''-crf'', S ''23'',
         S ''-c:a'', S ''aac'', S ''-shortest'', S ''/tmp/t/final_output.mp4''] \<and>
      list_all2 (fetched_from ok_env) [S ''urlA''] [input_video])"
proof -
  note h = ok_run_one
  have t: "tmp_root ok_env @ [tmp_name ok_env (tmp_count world0), x] = [S ''tmp'', S ''t'', x]" for x
    by (simp add: ok_env_def world0_def S_def)
  have p: "path_str [S ''tmp'', S ''t'', S ''narration.mp3''] = S ''/tmp/t/narration.mp3''"
    "path_str [S ''tmp'', S ''t'', S ''final_output.mp4''] = S ''/tmp/t/final_output.mp4''"
    by (simp_all add: path_str_def S_def)
  from mux_contract [OF h] show ?thesis
    unfolding t p using h by auto
qed

text \<open>
  Claim C9. For every list of paths and every fault of removal: the cleanup returns
  normally; every listed path whose removal does not fail is gone afterwards, whatever
  failed before it; a path that exists and whose removal fails is reported by a printed
  line and the loop goes on with the rest; and the outcome of \<open>process_video\<close> and the
  response of \<open>generate_video\<close> do not depend on the removal faults.
\<close>

theorem cleanup_swallows_errors:
  "fst (clean_temp_files e ps w) = Inr () \<and>
   (\<forall>q\<in>set ps. rm_fault e q = None \<longrightarrow> files (snd (clean_temp_files e ps w)) q = None) \<and>
   (files w p \<noteq> None \<and> rm_fault e p = Some m \<longrightarrow>
      clean_temp_files e (p # ps) w =
        clean_temp_files e ps (print_line (S ''Error cleaning up '' @ path_str p @ S '': '' @ m) w)) \<and>
   fst (process_video (e\<lparr>rm_fault := f\<rparr>) story urls w) = fst (process_video e story urls w) \<and>
   fst (generate_video (e\<lparr>rm_fault := f\<rparr>) req w) = fst (generate_video e req w)"
  by (simp del: clean_temp_files.simps
      add: clean_never_raises clean_removes clean_logs process_video_rm_fault
      generate_video_rm_fault)

text \<open>
  The workspace \<open>/tmp/t\<close> cannot be removed: the error is printed, the scratch directory
  \<open>/tmp/tt\<close> is removed all the same, and the request is answered with the file.
\<close>

theorem cleanup_swallows_errors_witness:
  "fst (clean_temp_files rm_fail_env paths1 world1) = Inr () \<and>
   rm_fault rm_fail_env [S ''tmp'', S ''t''] = Some (S ''Permission denied'') \<and>
   files (snd (clean_temp_files rm_fail_env paths1 world1)) [S ''tmp'', S ''t''] = Some Dir \<and>
   files (snd (clean_temp_files rm_fail_env paths1 world1)) [S ''tmp'', S ''tt''] = None \<and>
   stdout (snd (clean_temp_files rm_fail_env paths1 world1)) =
     [S ''Error cleaning up /tmp/t: Permission denied''] \<and>
   fst (generate_video rm_fail_env \<lparr>prompt = Some (S ''Hello world''), links = Some [S ''urlA'']\<rparr> world0) =
     SendFile [S ''tmp'', S ''t'', S ''final_output.mp4''] (S ''video/mp4'') (S ''generated_video.mp4'')"
proof -
  have a: "rm_fault rm_fail_env [S ''tmp'', S ''t''] = Some (S ''Permission denied'')"
    "rm_fault rm_fail_env [S ''tmp'', S ''tt''] = None"
    by (simp_all add: rm_fail_env_def S_def)
  have b: "[S ''tmp'', S ''tt''] \<in> set paths1" "files world1 [S ''tmp'', S ''t''] \<noteq> None"
    by (simp_all add: paths1_def world1_def)
  have c: "files (snd (clean_temp_files rm_fail_env paths1 world1)) [S ''tmp'', S ''t''] = Some Dir"
    "stdout (snd (clean_temp_files rm_fail_env paths1 world1)) =
       [S ''Error cleaning up /tmp/t: Permission denied'']"
    by (simp_all add: paths1_def world1_def world0_def rm_fail_env_def ok_env_def clean_eval S_def)
  have d: "fst (generate_video ok_env \<lparr>prompt = Some (S ''Hello world''), links = Some [S ''urlA'']\<rparr> world0) =
     SendFile [S ''tmp'', S ''t'', S ''final_output.mp4''] (S ''video/mp4'') (S ''generated_video.mp4'')"
    by (simp add: generate_video_fst eval_defs send_file_def ok_env_def world0_def S_def)
  from cleanup_swallows_errors [of rm_fail_env paths1 world1 "[S ''tmp'', S ''t'']"
      "S ''Permission denied''" "rm_fault rm_fail_env" "[]" "[]"]
    cleanup_swallows_errors [of ok_env "[]" world0 "[]" "[]" "rm_fault rm_fail_env" "[]" "[]"
      "\<lparr>prompt = Some (S ''Hello world''), links = Some [S ''urlA'']\<rparr>"]
    a b c d
  show ?thesis
    by (simp add: rm_fail_env_def)
qed

text \<open>
  Claim C10. For every list of paths, with duplicates and nesting, in any order: the
  cleanup returns normally; a path that is not there is skipped without any effect; a
  second pass over the same list leaves the file system as the first pass left it; and
  when no removal of the first pass failed, a second pass, under any faults, changes
  nothing at all.
\<close>

theorem cleanup_idempotent:
  "fst (clean_temp_files e ps w) = Inr () \<and>
   (files w p = None \<longrightarrow> clean_temp_files e (p # ps) w = clean_temp_files e ps w) \<and>
   files (snd (clean_temp_files e ps (snd (clean_temp_files e ps w)))) =
     files (snd (clean_temp_files e ps w)) \<and>
   ((\<forall>q\<in>set ps. rm_fault e q = None) \<longrightarrow>
      clean_temp_files e' ps (snd (clean_temp_files e ps w)) =
        (Inr (), snd (clean_temp_files e ps w)))"
proof -
  have "clean_temp_files e' ps (snd (clean_temp_files e ps w)) =
        (Inr (), snd (clean_temp_files e ps w))"
    if "\<forall>q\<in>set ps. rm_fault e q = None"
    by (rule clean_all_absent) (use that clean_removes in blast)
  then show ?thesis
    by (simp del: clean_temp_files.simps
        add: clean_never_raises clean_skip clean_idem_files)
qed

text \<open>
  The registration order of a job with one URL: the narration lies in the workspace
  removed before it, and the downloaded file is listed before its scratch directory.
\<close>

theorem cleanup_idempotent_witness:
  "clean_temp_files ok_env paths1 world1 = (Inr (), world0) \<and>
   clean_temp_files ok_env paths1 world0 = (Inr (), world0) \<and>
   files world1 [S ''tmp'', S ''t'', S ''narration.mp3''] = Some Media \<and>
   clean_temp_files ok_env [[S ''tmp'', S ''t''], [S ''tmp'', S ''t'', S ''narration.mp3'']] world1 =
     clean_temp_files ok_env [[S ''tmp'', S ''t'']] world1"
proof -
  have a: "clean_temp_files ok_env paths1 world1 = (Inr (), world0)"
    by (simp add: paths1_def world1_def world0_def ok_env_def clean_eval fun_eq_iff)
  have b: "\<forall>q\<in>set paths1. rm_fault ok_env q = None"
    by (simp add: ok_env_def)
  from cleanup_idempotent [of ok_env paths1 world1 "[]" ok_env] a b
  have c: "clean_temp_files ok_env paths1 world0 = (Inr (), world0)"
    by simp
  have d: "files world1 [S ''tmp'', S ''t'', S ''narration.mp3''] = Some Media"
    by (simp add: world1_def)
  have e: "clean_temp_files ok_env [[S ''tmp'', S ''t''], [S ''tmp'', S ''t'', S ''narration.mp3'']] world1 =
     clean_temp_files ok_env [[S ''tmp'', S ''t'']] world1"
    by (simp add: world1_def world0_def ok_env_def clean_eval)
  from a c d e show ?thesis by simp
qed

end
